theory Spec2Isabelle
  imports Complex_Main "HOL-Library.Multiset"
begin

section \<open>Arrays and numbers\<close>

text \<open>
  The module \<^verbatim>\<open>keras_contrib/initializers/convaware.py\<close> computes with numpy arrays of
  floating-point numbers. An array is modelled by its shape and its elements in row-major
  (C) order, the order numpy's \<^verbatim>\<open>reshape\<close>, \<^verbatim>\<open>tolist\<close> and iteration use. Finite
  floating-point values are modelled by exact reals: rounding and the cast to
  \<^verbatim>\<open>K.floatx()\<close> are not represented. What IEEE arithmetic does where the reals have
  no answer is kept: numpy divides by zero without raising and yields an infinity or NaN.
  Signed zeros are not represented.
\<close>

record 'a ndarray =
  shape :: "nat list"
  data :: "'a list"

datatype np_float = Fin real | PInf | NInf | NaN

datatype error = ValueError | TypeError | IndexError

text \<open>\<^verbatim>\<open>x / y\<close> on numpy floats.\<close>

fun fdiv :: "np_float \<Rightarrow> np_float \<Rightarrow> np_float" where
  "fdiv NaN _ = NaN"
| "fdiv _ NaN = NaN"
| "fdiv (Fin a) (Fin b) =
     (if b = 0 then (if a = 0 then NaN else if 0 < a then PInf else NInf) else Fin (a / b))"
| "fdiv (Fin a) PInf = Fin 0"
| "fdiv (Fin a) NInf = Fin 0"
| "fdiv PInf (Fin b) = (if b < 0 then NInf else PInf)"
| "fdiv NInf (Fin b) = (if b < 0 then PInf else NInf)"
| "fdiv PInf PInf = NaN"
| "fdiv PInf NInf = NaN"
| "fdiv NInf PInf = NaN"
| "fdiv NInf NInf = NaN"

text \<open>\<^verbatim>\<open>np.sqrt\<close>: NaN on a negative argument, no exception.\<close>

fun fsqrt :: "np_float \<Rightarrow> np_float" where
  "fsqrt (Fin a) = (if a < 0 then NaN else Fin (sqrt a))"
| "fsqrt PInf = PInf"
| "fsqrt NInf = NaN"
| "fsqrt NaN = NaN"

text \<open>\<^verbatim>\<open>x * y\<close> on numpy floats: zero times an infinity is NaN.\<close>

fun fmul :: "np_float \<Rightarrow> np_float \<Rightarrow> np_float" where
  "fmul NaN _ = NaN"
| "fmul _ NaN = NaN"
| "fmul (Fin a) (Fin b) = Fin (a * b)"
| "fmul (Fin a) PInf = (if a = 0 then NaN else if 0 < a then PInf else NInf)"
| "fmul (Fin a) NInf = (if a = 0 then NaN else if 0 < a then NInf else PInf)"
| "fmul PInf (Fin b) = (if b = 0 then NaN else if 0 < b then PInf else NInf)"
| "fmul NInf (Fin b) = (if b = 0 then NaN else if 0 < b then NInf else PInf)"
| "fmul PInf PInf = PInf"
| "fmul PInf NInf = NInf"
| "fmul NInf PInf = NInf"
| "fmul NInf NInf = PInf"

subsection \<open>Two-dimensional arrays\<close>

text \<open>The matrix with \<open>m\<close> rows and \<open>n\<close> columns whose entry \<open>(i, j)\<close> is \<open>f i j\<close>.\<close>

definition mk2 :: "nat \<Rightarrow> nat \<Rightarrow> (nat \<Rightarrow> nat \<Rightarrow> 'a) \<Rightarrow> 'a ndarray" where
  "mk2 m n f = \<lparr>shape = [m, n], data = map (\<lambda>k. f (k div n) (k mod n)) [0..<m * n]\<rparr>"

text \<open>\<^verbatim>\<open>a[i, j]\<close> of a two-dimensional array.\<close>

definition at2 :: "'a ndarray \<Rightarrow> nat \<Rightarrow> nat \<Rightarrow> 'a" where
  "at2 a i j = data a ! (i * (shape a ! 1) + j)"

text \<open>\<^verbatim>\<open>a.T\<close> of a two-dimensional array.\<close>

definition T2 :: "'a ndarray \<Rightarrow> 'a ndarray" where
  "T2 a = mk2 (shape a ! 1) (shape a ! 0) (\<lambda>i j. at2 a j i)"

text \<open>\<^verbatim>\<open>a.diagonal()\<close>: the one-dimensional array of the entries \<open>a[i, i]\<close>.\<close>

definition diagonal :: "'a ndarray \<Rightarrow> 'a ndarray" where
  "diagonal a =
     (let k = min (shape a ! 0) (shape a ! 1)
      in \<lparr>shape = [k], data = map (\<lambda>i. at2 a i i) [0..<k]\<rparr>)"

text \<open>\<^verbatim>\<open>np.diag(v)\<close> of a one-dimensional array: the square matrix with \<open>v\<close> on its diagonal.\<close>

definition np_diag :: "real ndarray \<Rightarrow> real ndarray" where
  "np_diag v =
     (let k = shape v ! 0 in mk2 k k (\<lambda>i j. if i = j then data v ! i else 0))"

text \<open>
  Elementwise \<^verbatim>\<open>a + b\<close> and \<^verbatim>\<open>a - b\<close>. The module only combines arrays of one shape,
  so numpy's broadcasting is not represented.
\<close>

definition np_add :: "real ndarray \<Rightarrow> real ndarray \<Rightarrow> real ndarray" where
  "np_add a b = \<lparr>shape = shape a, data = map2 (+) (data a) (data b)\<rparr>"

definition np_sub :: "real ndarray \<Rightarrow> real ndarray \<Rightarrow> real ndarray" where
  "np_sub a b = \<lparr>shape = shape a, data = map2 (-) (data a) (data b)\<rparr>"

text \<open>\<^verbatim>\<open>a.tolist()\<close> of a two-dimensional array: the list of its rows.\<close>

definition tolist2 :: "'a ndarray \<Rightarrow> 'a list list" where
  "tolist2 a =
     map (\<lambda>i. take (shape a ! 1) (drop (i * (shape a ! 1)) (data a))) [0..<shape a ! 0]"

text \<open>\<^verbatim>\<open>np.array(rows)\<close> of a list of equally long rows.\<close>

definition np_array2 :: "'a list list \<Rightarrow> 'a ndarray" where
  "np_array2 rows =
     (case rows of
        [] \<Rightarrow> \<lparr>shape = [0], data = []\<rparr>
      | r # _ \<Rightarrow> \<lparr>shape = [length rows, length r], data = concat rows\<rparr>)"

section \<open>The initializer\<close>

subsection \<open>Construction and configuration\<close>

text \<open>
  \<^verbatim>\<open>__init__(self, eps_std=0.05, seed=None)\<close> stores its two arguments. The third
  attribute, \<^verbatim>\<open>self.orthogonal = Orthogonal()\<close>, is the same default-constructed Keras
  initializer for every instance and is a collaborator below, not a field.
\<close>

record initializer =
  eps_std :: real
  seed :: "int option"

definition ConvolutionAware :: "real \<Rightarrow> int option \<Rightarrow> initializer" where
  "ConvolutionAware e s = \<lparr>eps_std = e, seed = s\<rparr>"

text \<open>The values a configuration dictionary holds.\<close>

datatype pyval = PyFloat real | PyInt int | PyNone

text \<open>
  \<^verbatim>\<open>get_config\<close> returns a dictionary literal; a Python dictionary keeps its keys in
  insertion order, so it is an association list.
\<close>

definition get_config :: "initializer \<Rightarrow> (string \<times> pyval) list" where
  "get_config c =
     [(''eps_std'', PyFloat (eps_std c)),
      (''seed'', (case seed c of None \<Rightarrow> PyNone | Some s \<Rightarrow> PyInt s))]"

text \<open>
  \<^verbatim>\<open>ConvolutionAware(**config)\<close>, the way Keras rebuilds an initializer from its
  configuration: each key is bound to the parameter of that name, a missing key takes the
  parameter's default, and a key that names no parameter is Python's \<^verbatim>\<open>TypeError\<close>.
  The model's fields are typed: an integer \<^verbatim>\<open>eps_std\<close> is read as the real it denotes,
  and a value the fields cannot hold (\<^verbatim>\<open>eps_std=None\<close>, a float seed), which Python
  would store and numpy reject at the first call, is answered with \<^verbatim>\<open>TypeError\<close> here.
\<close>

definition kw_eps_std :: "pyval option \<Rightarrow> real option" where
  "kw_eps_std v =
     (case v of
        None \<Rightarrow> Some (5 / 100)
      | Some (PyFloat e) \<Rightarrow> Some e
      | Some (PyInt n) \<Rightarrow> Some (of_int n)
      | Some PyNone \<Rightarrow> None)"

definition kw_seed :: "pyval option \<Rightarrow> int option option" where
  "kw_seed v =
     (case v of
        None \<Rightarrow> Some None
      | Some PyNone \<Rightarrow> Some None
      | Some (PyInt s) \<Rightarrow> Some (Some s)
      | Some (PyFloat _) \<Rightarrow> None)"

definition init_kwargs :: "(string \<times> pyval) list \<Rightarrow> error + initializer" where
  "init_kwargs config =
     (if \<exists>k \<in> set (map fst config). k \<noteq> ''eps_std'' \<and> k \<noteq> ''seed'' then Inl TypeError
      else
        (case (kw_eps_std (map_of config ''eps_std''), kw_seed (map_of config ''seed'')) of
           (Some e, Some s) \<Rightarrow> Inr (ConvolutionAware e s)
         | _ \<Rightarrow> Inl TypeError))"

subsection \<open>Symmetrization\<close>

text \<open>\<^verbatim>\<open>_symmetrize(self, a)\<close>: \<^verbatim>\<open>a + a.T - np.diag(a.diagonal())\<close>.\<close>

definition symmetrize :: "real ndarray \<Rightarrow> real ndarray" where
  "symmetrize a = np_sub (np_add a (T2 a)) (np_diag (diagonal a))"

subsection \<open>Collaborators\<close>

text \<open>
  The module calls numpy and Keras for everything it does not compute itself. Their code
  is not part of the repository, so the values they compute are parameters; what the
  module relies on of their behaviour (the shape of a result, when they raise) is written
  into the wrappers below.

  numpy's random generator is process-wide mutable state: it is threaded through every
  function as an explicit state \<open>'g\<close>, and a function that can raise returns the error
  or its value together with the state it leaves behind.
\<close>

record 'g numpy =
  np_random_seed :: "int \<Rightarrow> 'g"
    \<comment> \<open>the generator state \<^verbatim>\<open>np.random.seed(s)\<close> installs\<close>
  gauss :: "'g \<Rightarrow> real \<times> 'g"
    \<comment> \<open>one standard normal draw and the state after it\<close>
  svd_u :: "real ndarray \<Rightarrow> nat \<Rightarrow> nat \<Rightarrow> real"
    \<comment> \<open>entry \<open>(i, j)\<close> of \<open>u\<close> in \<^verbatim>\<open>u, _, v = np.linalg.svd(a)\<close>\<close>
  irfftn :: "real ndarray \<Rightarrow> nat list \<Rightarrow> nat \<Rightarrow> real"
    \<comment> \<open>element \<open>k\<close> (row-major) of the inverse real transform of \<open>x\<close> with output shape \<open>s\<close>\<close>
  compute_fans :: "nat list \<Rightarrow> real \<times> real"
    \<comment> \<open>\<^verbatim>\<open>_compute_fans(shape, K.image_data_format())\<close>\<close>
  svd_q :: "real ndarray \<Rightarrow> nat \<Rightarrow> real"
    \<comment> \<open>element \<open>k\<close> (row-major) of the factor of
      \<^verbatim>\<open>np.linalg.svd(a, full_matrices=False)\<close> that has the shape of \<open>a\<close>\<close>

type_synonym ('a, 'g) res = "(error + 'a) \<times> 'g"

text \<open>Sequencing: an exception ends the computation and keeps the state reached.\<close>

definition and_then :: "('a, 'g) res \<Rightarrow> ('a \<Rightarrow> 'g \<Rightarrow> ('b, 'g) res) \<Rightarrow> ('b, 'g) res" where
  "and_then r f = (case r of (Inl e, g) \<Rightarrow> (Inl e, g) | (Inr a, g) \<Rightarrow> f a g)"

text \<open>
  \<^verbatim>\<open>np.random.seed(s)\<close>: numpy accepts the integers from 0 to \<open>2\<^sup>3\<^sup>2 - 1\<close> and raises
  \<^verbatim>\<open>ValueError\<close> on any other.
\<close>

definition np_seed :: "'g numpy \<Rightarrow> int \<Rightarrow> 'g \<Rightarrow> (unit, 'g) res" where
  "np_seed E s g =
     (if s < 0 \<or> 2 ^ 32 \<le> s then (Inl ValueError, g) else (Inr (), np_random_seed E s))"

fun draws :: "'g numpy \<Rightarrow> nat \<Rightarrow> 'g \<Rightarrow> real list \<times> 'g" where
  "draws E 0 g = ([], g)"
| "draws E (Suc n) g =
     (let (z, g1) = gauss E g; (zs, g2) = draws E n g1 in (z # zs, g2))"

text \<open>
  \<^verbatim>\<open>np.random.normal(loc, scale, shape)\<close>: one draw per element, in row-major order, each
  \<open>loc + scale * z\<close> for a standard normal \<open>z\<close>; \<^verbatim>\<open>ValueError\<close> on a negative scale.
\<close>

definition np_random_normal ::
  "'g numpy \<Rightarrow> real \<Rightarrow> real \<Rightarrow> nat list \<Rightarrow> 'g \<Rightarrow> (real ndarray, 'g) res" where
  "np_random_normal E loc scale shp g =
     (if scale < 0 then (Inl ValueError, g)
      else
        (let (zs, g1) = draws E (prod_list shp) g
         in (Inr \<lparr>shape = shp, data = map (\<lambda>z. loc + scale * z) zs\<rparr>, g1)))"

text \<open>\<open>u\<close> of \<^verbatim>\<open>np.linalg.svd(a)\<close> for an \<open>m\<close> by \<open>n\<close> matrix is \<open>m\<close> by \<open>m\<close>.\<close>

definition np_linalg_svd_u :: "'g numpy \<Rightarrow> real ndarray \<Rightarrow> real ndarray" where
  "np_linalg_svd_u E a = (let m = shape a ! 0 in mk2 m m (svd_u E a))"

text \<open>
  The shape of \<^verbatim>\<open>np.fft.rfft\<close>, \<^verbatim>\<open>rfft2\<close> and \<^verbatim>\<open>rfftn\<close> of a real array: the last
  axis of length \<open>n\<close> becomes \<open>n div 2 + 1\<close>, the others are kept. The module uses the
  forward transform for this shape only.
\<close>

definition rfft_shape :: "nat list \<Rightarrow> nat list" where
  "rfft_shape ks = butlast ks @ [last ks div 2 + 1]"

text \<open>
  \<^verbatim>\<open>np.fft.irfft(x, n)\<close>, \<^verbatim>\<open>irfft2(x, s)\<close> and \<^verbatim>\<open>irfftn(x, s)\<close> return a real array of
  shape \<open>s\<close>.
\<close>

definition np_fft_irfftn :: "'g numpy \<Rightarrow> real ndarray \<Rightarrow> nat list \<Rightarrow> real ndarray" where
  "np_fft_irfftn E x s = \<lparr>shape = s, data = map (irfftn E x s) [0..<prod_list s]\<rparr>"

text \<open>
  \<^verbatim>\<open>a.reshape(s)\<close> keeps the elements in row-major order. Every reshape of the module
  keeps the number of elements, so numpy's \<^verbatim>\<open>ValueError\<close> on a size mismatch is not
  represented.
\<close>

definition reshape :: "'a ndarray \<Rightarrow> nat list \<Rightarrow> 'a ndarray" where
  "reshape a s = \<lparr>shape = s, data = data a\<rparr>"

text \<open>\<^verbatim>\<open>for x in a\<close>: the sub-arrays along the first axis.\<close>

definition iter0 :: "'a ndarray \<Rightarrow> 'a ndarray list" where
  "iter0 a =
     (let s = tl (shape a); n = prod_list s
      in map (\<lambda>i. \<lparr>shape = s, data = take n (drop (i * n) (data a))\<rparr>) [0..<shape a ! 0])"

text \<open>\<^verbatim>\<open>np.array(init)\<close> of a list of lists of equally shaped arrays.\<close>

definition np_array_nested :: "'a ndarray list list \<Rightarrow> 'a ndarray" where
  "np_array_nested init =
     \<lparr>shape =
        (case init of
           [] \<Rightarrow> [0]
         | fs # _ \<Rightarrow>
             (case fs of
                [] \<Rightarrow> [length init, 0]
              | f # _ \<Rightarrow> length init # length fs # shape f)),
      data = concat (map (\<lambda>fs. concat (map data fs)) init)\<rparr>"

text \<open>
  \<^verbatim>\<open>np.var(a)\<close>: the mean of the squared deviations from the mean, over all elements;
  NaN for an empty array.
\<close>

definition np_mean :: "real list \<Rightarrow> real" where
  "np_mean xs = sum_list xs / real (length xs)"

definition np_var :: "real list \<Rightarrow> np_float" where
  "np_var xs =
     (if xs = [] then NaN
      else Fin (sum_list (map (\<lambda>x. (x - np_mean xs)\<^sup>2) xs) / real (length xs)))"

text \<open>
  \<^verbatim>\<open>a.transpose(axes)\<close>: axis \<open>i\<close> of the result is axis \<open>axes[i]\<close> of \<open>a\<close>. The
  multi-index of the flat position \<open>k\<close> in an array of shape \<open>s\<close> is \<open>unravel s k\<close>, and
  \<open>ravel s\<close> is its inverse.
\<close>

fun unravel :: "nat list \<Rightarrow> nat \<Rightarrow> nat list" where
  "unravel [] k = []"
| "unravel (n # ns) k = k div prod_list ns # unravel ns (k mod prod_list ns)"

fun ravel :: "nat list \<Rightarrow> nat list \<Rightarrow> nat" where
  "ravel (n # ns) (i # is) = i * prod_list ns + ravel ns is"
| "ravel _ _ = 0"

fun index_of :: "nat list \<Rightarrow> nat \<Rightarrow> nat" where
  "index_of [] a = 0"
| "index_of (p # ps) a = (if p = a then 0 else Suc (index_of ps a))"

definition np_transpose :: "'a ndarray \<Rightarrow> nat list \<Rightarrow> 'a ndarray" where
  "np_transpose a axes =
     (let s = map (\<lambda>p. shape a ! p) axes
      in \<lparr>shape = s,
          data =
            map (\<lambda>k. data a !
                   ravel (shape a)
                     (map (\<lambda>ax. unravel s k ! index_of axes ax) [0..<length axes]))
              [0..<prod_list s]\<rparr>)"

text \<open>
  \<^verbatim>\<open>K.variable(value, dtype=K.floatx())\<close> wraps the array in a backend variable: shape
  and values are those of the array.
\<close>

definition K_variable :: "real ndarray \<Rightarrow> np_float ndarray" where
  "K_variable q = \<lparr>shape = shape q, data = map Fin (data q)\<rparr>"

text \<open>
  \<^verbatim>\<open>self.orthogonal(shape)\<close>: the call of Keras's \<^verbatim>\<open>Orthogonal\<close> initializer with its
  defaults (\<^verbatim>\<open>gain=1.\<close>, \<^verbatim>\<open>seed=None\<close>), which is not part of the repository. Keras 2
  has
  \<^verbatim>\<open>
    num_rows = 1
    for dim in shape[:-1]:
        num_rows *= dim
    num_cols = shape[-1]
    flat_shape = (num_rows, num_cols)
    if self.seed is not None:
        np.random.seed(self.seed)
    a = np.random.normal(0.0, 1.0, flat_shape)
    u, _, v = np.linalg.svd(a, full_matrices=False)
    q = u if u.shape == flat_shape else v
    q = q.reshape(shape)
    return self.gain * q[:shape[0], :shape[1]]
  \<close>
  One of \<open>u\<close> and \<open>v\<close> has the shape of \<open>a\<close>, and its values are the parameter \<open>svd_q\<close>.
  \<^verbatim>\<open>shape[-1]\<close> is an \<^verbatim>\<open>IndexError\<close> on the empty shape, before anything is drawn, and
  \<^verbatim>\<open>shape[1]\<close> is one on a shape of rank 1, after the draw. On a shape of rank 2 or more
  the two slices are the whole of the first two axes.
\<close>

definition orthogonal :: "'g numpy \<Rightarrow> nat list \<Rightarrow> 'g \<Rightarrow> (real ndarray, 'g) res" where
  "orthogonal E shp g =
     (if shp = [] then (Inl IndexError, g)
      else
        (let num_rows = prod_list (butlast shp);
             num_cols = last shp;
             flat_shape = [num_rows, num_cols]
         in and_then (np_random_normal E 0 1 flat_shape g) (\<lambda>a g1.
              let q = \<lparr>shape = flat_shape,
                       data = map (svd_q E a) [0..<num_rows * num_cols]\<rparr>;
                  q' = reshape q shp
              in if length shp < 2 then (Inl IndexError, g1) else (Inr q', g1))))"

subsection \<open>The basis generator\<close>

text \<open>
  The loop of \<^verbatim>\<open>_create_basis\<close>, \<open>n\<close> iterations from the state \<open>g\<close>: each samples a
  square matrix, symmetrizes it, decomposes it and extends the list \<open>li\<close> by the rows of
  \<^verbatim>\<open>u.T\<close>.
\<close>

fun basis_blocks :: "'g numpy \<Rightarrow> nat \<Rightarrow> nat \<Rightarrow> 'g \<Rightarrow> (real list list, 'g) res" where
  "basis_blocks E sz 0 g = (Inr [], g)"
| "basis_blocks E sz (Suc n) g =
     and_then (np_random_normal E 0 1 [sz, sz] g) (\<lambda>a g1.
       let a' = symmetrize a;
           u = np_linalg_svd_u E a'
       in and_then (basis_blocks E sz n g1) (\<lambda>li g2.
            (Inr (tolist2 (T2 u) @ li), g2)))"

text \<open>
  \<^verbatim>\<open>_create_basis(self, filters, size)\<close>. The number of blocks is
  \<^verbatim>\<open>nbb = filters // size + 1\<close>, and \<^verbatim>\<open>li[:filters]\<close> keeps the first \<open>filters\<close> rows.
\<close>

definition create_basis ::
  "'g numpy \<Rightarrow> initializer \<Rightarrow> nat \<Rightarrow> nat \<Rightarrow> 'g \<Rightarrow> (real ndarray, 'g) res" where
  "create_basis E self filters sz g =
     (if sz = 1 then np_random_normal E 0 (eps_std self) [filters, sz] g
      else
        (let nbb = filters div sz + 1
         in and_then (basis_blocks E sz nbb g) (\<lambda>li g1.
              (Inr (np_array2 (take filters li)), g1))))"

subsection \<open>Rescaling\<close>

text \<open>
  \<^verbatim>\<open>_scale_filters(self, filters, variance)\<close>: nothing guards the division, so a zero
  empirical variance gives an infinite or NaN factor.
\<close>

definition scale_filters :: "real ndarray \<Rightarrow> np_float \<Rightarrow> np_float ndarray" where
  "scale_filters filters variance =
     (let c_var = np_var (data filters);
          p = fsqrt (fdiv variance c_var)
      in \<lparr>shape = shape filters, data = map (\<lambda>x. fmul (Fin x) p) (data filters)\<rparr>)"

subsection \<open>The call\<close>

text \<open>
  The list comprehension of \<^verbatim>\<open>__call__\<close>: for each \<open>x\<close> of the basis, the inverse
  transform of \<open>x\<close> plus fresh noise of the kernel's shape.
\<close>

fun make_filters ::
  "'g numpy \<Rightarrow> initializer \<Rightarrow> nat list \<Rightarrow> real ndarray list \<Rightarrow> 'g \<Rightarrow> (real ndarray list, 'g) res"
  where
  "make_filters E self kernel_shape [] g = (Inr [], g)"
| "make_filters E self kernel_shape (x # xs) g =
     and_then (np_random_normal E 0 (eps_std self) kernel_shape g) (\<lambda>noise g1.
       and_then (make_filters E self kernel_shape xs g1) (\<lambda>fs g2.
         (Inr (np_add (np_fft_irfftn E x kernel_shape) noise # fs), g2)))"

text \<open>The loop \<^verbatim>\<open>for i in range(filters_size)\<close>, \<open>n\<close> iterations from the state \<open>g\<close>.\<close>

fun init_loop ::
  "'g numpy \<Rightarrow> initializer \<Rightarrow> nat list \<Rightarrow> nat list \<Rightarrow> nat \<Rightarrow> nat \<Rightarrow> 'g
     \<Rightarrow> (real ndarray list list, 'g) res"
  where
  "init_loop E self kernel_shape kernel_fourier_shape stack_size 0 g = (Inr [], g)"
| "init_loop E self kernel_shape kernel_fourier_shape stack_size (Suc n) g =
     and_then (create_basis E self stack_size (prod_list kernel_fourier_shape) g) (\<lambda>basis g1.
       let basis' = reshape basis (stack_size # kernel_fourier_shape)
       in and_then (make_filters E self kernel_shape (iter0 basis') g1) (\<lambda>filters g2.
            and_then (init_loop E self kernel_shape kernel_fourier_shape stack_size n g2)
              (\<lambda>init g3. (Inr (filters # init), g3))))"

text \<open>
  The filter bank before rescaling: lines 60 to 75 of the module, in the layout
  (filters, stack, spatial dimensions).
\<close>

definition filter_bank ::
  "'g numpy \<Rightarrow> initializer \<Rightarrow> nat list \<Rightarrow> nat \<Rightarrow> nat \<Rightarrow> 'g \<Rightarrow> (real ndarray, 'g) res" where
  "filter_bank E self kernel_shape stack_size filters_size g =
     (let kernel_fourier_shape = rfft_shape kernel_shape
      in and_then
           (init_loop E self kernel_shape kernel_fourier_shape stack_size filters_size g)
           (\<lambda>init g1. (Inr (np_array_nested init), g1)))"

text \<open>The part of \<^verbatim>\<open>__call__\<close> the three convolutional ranks share.\<close>

definition spectral ::
  "'g numpy \<Rightarrow> initializer \<Rightarrow> nat list \<Rightarrow> nat \<Rightarrow> nat \<Rightarrow> nat list \<Rightarrow> np_float \<Rightarrow> 'g
     \<Rightarrow> (np_float ndarray, 'g) res" where
  "spectral E self kernel_shape stack_size filters_size transpose_dimensions variance g =
     and_then (filter_bank E self kernel_shape stack_size filters_size g) (\<lambda>init g1.
       (Inr (np_transpose (scale_filters init variance) transpose_dimensions), g1))"

text \<open>
  \<^verbatim>\<open>__call__(self, shape)\<close>. \<^verbatim>\<open>2 / fan_in\<close> is Python 3's true division on a numpy
  number. Shapes have positive entries; what numpy and Python do with an empty axis (a
  \<^verbatim>\<open>ZeroDivisionError\<close> at \<^verbatim>\<open>2 / fan_in\<close> for the shape \<open>(0, n)\<close>, empty arrays) is
  outside the model.
\<close>

definition call ::
  "'g numpy \<Rightarrow> initializer \<Rightarrow> nat list \<Rightarrow> 'g \<Rightarrow> (np_float ndarray, 'g) res" where
  "call E self shp g =
     (let rank = length shp
      in and_then (case seed self of None \<Rightarrow> (Inr (), g) | Some s \<Rightarrow> np_seed E s g) (\<lambda>_ g0.
           let fan_in = fst (compute_fans E shp);
               variance = fdiv (Fin 2) (Fin fan_in)
           in if rank = 3 then
                spectral E self [shp ! 0] (shp ! 1) (shp ! 2) [2, 1, 0] variance g0
              else if rank = 4 then
                spectral E self [shp ! 0, shp ! 1] (shp ! 2) (shp ! 3) [2, 3, 0, 1] variance g0
              else if rank = 5 then
                spectral E self [shp ! 0, shp ! 1, shp ! 2] (shp ! 3) (shp ! 4)
                  [3, 4, 0, 1, 2] variance g0
              else
                and_then (orthogonal E shp g0) (\<lambda>q g1. (Inr (K_variable q), g1))))"

subsection \<open>A concrete set of collaborators\<close>

text \<open>
  One instance of the parameters, on which the definitions can be run. The generator
  state is a position in the stream \<open>0, 1, 2, \<dots>\<close> of draws and a seed \<open>s\<close> moves it to
  position \<open>s\<close>. The fan computation is Keras's convention for the channels-last format:
  \<open>fan_in\<close> is the product of the spatial dimensions times the input channels. The
  inverse transform is numpy's where every axis has length 1 or 2 (there the real
  transform has the signs \<open>\<plusminus>1\<close> only); the evaluations below use no other kernel. The
  decomposition answers with the identity matrix, whose columns are orthonormal, and with
  the identity pattern for the factor the orthogonal initializer picks.
\<close>

definition keras_compute_fans :: "nat list \<Rightarrow> real \<times> real" where
  "keras_compute_fans shp =
     (if length shp = 2 then (real (shp ! 0), real (shp ! 1))
      else if length shp \<in> {3, 4, 5} then
        (let receptive_field_size = prod_list (butlast (butlast shp))
         in (real (last (butlast shp) * receptive_field_size),
             real (last shp * receptive_field_size)))
      else (sqrt (real (prod_list shp)), sqrt (real (prod_list shp))))"

definition irfftn_small :: "real ndarray \<Rightarrow> nat list \<Rightarrow> nat \<Rightarrow> real" where
  "irfftn_small x s k =
     sum_list
       (map (\<lambda>j. data x ! j *
                (if even (sum_list (map2 (*) (unravel s j) (unravel s k))) then 1 else - 1))
          [0..<prod_list s])
     / real (prod_list s)"

definition E0 :: "nat numpy" where
  "E0 =
     \<lparr>np_random_seed = (\<lambda>s. nat s),
      gauss = (\<lambda>g. (real g, Suc g)),
      svd_u = (\<lambda>a i j. if i = j then 1 else 0),
      irfftn = irfftn_small,
      compute_fans = keras_compute_fans,
      svd_q = (\<lambda>a k. if k div (shape a ! 1) = k mod (shape a ! 1) then 1 else 0)\<rparr>"

subsection \<open>Notions the statements use\<close>

text \<open>The inner product of two rows.\<close>

definition dot :: "real list \<Rightarrow> real list \<Rightarrow> real" where
  "dot xs ys = sum_list (map2 (*) xs ys)"

text \<open>
  The contract of a singular value decomposition in exact arithmetic: the \<open>n\<close> columns of
  \<open>u\<close> are orthonormal.
\<close>

definition orthonormal_columns :: "nat \<Rightarrow> (nat \<Rightarrow> nat \<Rightarrow> real) \<Rightarrow> bool" where
  "orthonormal_columns n u =
     list_all (\<lambda>i. list_all (\<lambda>j.
         sum_list (map (\<lambda>k. u k i * u k j) [0..<n]) = (if i = j then 1 else 0)) [0..<n]) [0..<n]"

text \<open>A seed numpy accepts, or none.\<close>

definition valid_seed :: "initializer \<Rightarrow> bool" where
  "valid_seed self = (case seed self of None \<Rightarrow> True | Some s \<Rightarrow> 0 \<le> s \<and> s < 2 ^ 32)"

section \<open>Properties\<close>

lemma mk2_shape: "shape (mk2 m n f) = [m, n]"
  by (simp add: mk2_def)

lemma mk2_length: "length (data (mk2 m n f)) = m * n"
  by (simp add: mk2_def)

lemma mk2_at2: "i < m \<Longrightarrow> j < n \<Longrightarrow> at2 (mk2 m n f) i j = f i j"
proof -
  assume i: "i < m" and j: "j < n"
  have "i * n + j < Suc i * n" using j by simp
  also have "\<dots> \<le> m * n" using i by (simp only: mult_le_mono1 Suc_leI)
  finally have lt: "i * n + j < m * n" .
  show ?thesis using lt j by (simp add: mk2_def at2_def)
qed

subsection \<open>Matrices\<close>

lemma mk2_cong: "(\<And>i j. i < m \<Longrightarrow> j < n \<Longrightarrow> f i j = g i j) \<Longrightarrow> mk2 m n f = mk2 m n g"
proof -
  assume h: "\<And>i j. i < m \<Longrightarrow> j < n \<Longrightarrow> f i j = g i j"
  have "f (k div n) (k mod n) = g (k div n) (k mod n)" if "k < m * n" for k
  proof -
    have n: "0 < n" using that by (cases n) simp_all
    have "k div n < m" using that by (simp add: less_mult_imp_div_less)
    moreover have "k mod n < n" using n by simp
    ultimately show ?thesis by (rule h)
  qed
  then show ?thesis by (simp add: mk2_def)
qed

lemma as_mk2:
  fixes a :: "'a ndarray"
  assumes "shape a = [m, n]" "length (data a) = m * n"
  shows "a = mk2 m n (at2 a)"
proof -
  have "data a = map (\<lambda>k. at2 a (k div n) (k mod n)) [0..<m * n]"
    using assms by (intro nth_equalityI) (simp_all add: at2_def)
  then show ?thesis using assms(1) by (cases a) (simp add: mk2_def)
qed

lemma np_add_mk2: "np_add (mk2 m n f) (mk2 m n g) = mk2 m n (\<lambda>i j. f i j + g i j)"
  by (simp add: np_add_def mk2_def zip_map_map zip_same_conv_map)

lemma np_sub_mk2: "np_sub (mk2 m n f) (mk2 m n g) = mk2 m n (\<lambda>i j. f i j - g i j)"
  by (simp add: np_sub_def mk2_def zip_map_map zip_same_conv_map)

lemma T2_mk2: "T2 (mk2 m n f) = mk2 n m (\<lambda>i j. f j i)"
  unfolding T2_def mk2_shape by (simp, rule mk2_cong) (simp add: mk2_at2)

lemma np_diag_diagonal_mk2:
  "np_diag (diagonal (mk2 n n f)) = mk2 n n (\<lambda>i j. if i = j then f i i else 0)"
  unfolding np_diag_def diagonal_def Let_def mk2_shape
  by (simp, rule mk2_cong) (simp add: mk2_at2)

lemma symmetrize_mk2:
  "symmetrize (mk2 n n f) = mk2 n n (\<lambda>i j. f i j + f j i - (if i = j then f i i else 0))"
  by (simp add: symmetrize_def T2_mk2 np_add_mk2 np_diag_diagonal_mk2 np_sub_mk2)

subsection \<open>Symmetrization\<close>

text \<open>
  Claim C6. For every square matrix \<open>a\<close> (\<open>n\<close> rows of \<open>n\<close> entries), \<open>symmetrize a\<close> is
  the \<open>n\<close> by \<open>n\<close> matrix \<open>a + a\<^sup>T - diag (diag a)\<close>: an entry off the diagonal is the sum
  \<open>a\<^sub>i\<^sub>j + a\<^sub>j\<^sub>i\<close>, not its half, an entry on the diagonal is that of \<open>a\<close>, and the result
  is symmetric (it is its own transpose).
\<close>

theorem symmetrize_formula:
  assumes "shape a = [n, n]" and "length (data a) = n * n"
  shows "shape (symmetrize a) = [n, n] \<and> length (data (symmetrize a)) = n * n \<and>
         T2 (symmetrize a) = symmetrize a \<and>
         (\<forall>i<n. \<forall>j<n. at2 (symmetrize a) i j =
            (if i = j then at2 a i i else at2 a i j + at2 a j i))"
proof -
  let ?g = "\<lambda>i j. at2 a i j + at2 a j i - (if i = j then at2 a i i else 0)"
  have a: "a = mk2 n n (at2 a)" using assms by (rule as_mk2)
  have s: "symmetrize a = mk2 n n ?g"
    by (subst a) (simp only: symmetrize_mk2)
  have "T2 (mk2 n n ?g) = mk2 n n ?g"
    unfolding T2_mk2 by (rule mk2_cong) auto
  then have t: "T2 (symmetrize a) = symmetrize a" by (simp only: s)
  have e: "\<forall>i<n. \<forall>j<n. at2 (symmetrize a) i j =
           (if i = j then at2 a i i else at2 a i j + at2 a j i)"
    by (simp add: s mk2_at2)
  show ?thesis using t e by (simp add: s mk2_shape mk2_length)
qed

theorem symmetrize_formula_witness:
  "shape (symmetrize \<lparr>shape = [2, 2], data = [1, 2, 3, 4]\<rparr>) = [2, 2] \<and>
   T2 (symmetrize \<lparr>shape = [2, 2], data = [1, 2, 3, 4]\<rparr>)
     = symmetrize \<lparr>shape = [2, 2], data = [1, 2, 3, 4]\<rparr> \<and>
   at2 (symmetrize \<lparr>shape = [2, 2], data = [1, 2, 3, 4]\<rparr>) 0 1 = 5 \<and>
   at2 (symmetrize \<lparr>shape = [2, 2], data = [1, 2, 3, 4]\<rparr>) 1 1 = 4"
proof -
  let ?a = "\<lparr>shape = [2, 2], data = [1, 2, 3, 4 :: real]\<rparr>"
  have h: "shape ?a = [2, 2]" "length (data ?a) = 2 * 2" by simp_all
  note f = symmetrize_formula [OF h]
  have "at2 (symmetrize ?a) 0 1 = at2 ?a 0 1 + at2 ?a 1 0"
    and "at2 (symmetrize ?a) 1 1 = at2 ?a 1 1"
    using f by simp_all
  then have "at2 (symmetrize ?a) 0 1 = 5" and "at2 (symmetrize ?a) 1 1 = 4"
    by (simp_all add: at2_def)
  then show ?thesis using f by simp
qed

subsection \<open>Configuration\<close>

text \<open>
  Claim C10. For every \<open>eps_std\<close> and seed, \<open>get_config\<close> of the initializer built from
  them has exactly the keys \<open>eps_std\<close> and \<open>seed\<close>, bound to the constructor's values, and
  building an initializer from that dictionary gives the same configuration again.
\<close>

theorem get_config_roundtrip:
  "map fst (get_config (ConvolutionAware e s)) = [''eps_std'', ''seed''] \<and>
   map_of (get_config (ConvolutionAware e s)) ''eps_std'' = Some (PyFloat e) \<and>
   map_of (get_config (ConvolutionAware e s)) ''seed''
     = Some (case s of None \<Rightarrow> PyNone | Some n \<Rightarrow> PyInt n) \<and>
   init_kwargs (get_config (ConvolutionAware e s)) = Inr (ConvolutionAware e s)"
  by (cases s)
    (simp_all add: get_config_def ConvolutionAware_def init_kwargs_def kw_eps_std_def
      kw_seed_def)

subsection \<open>Sequencing, draws and rows\<close>

lemma and_then_Inl: "and_then (Inl e, g) f = (Inl e, g)"
  by (simp add: and_then_def)

lemma and_then_Inr: "and_then (Inr a, g) f = f a g"
  by (simp add: and_then_def)

lemma and_then_eq_Inr:
  "and_then r f = (Inr b, g') \<longleftrightarrow> (\<exists>a g1. r = (Inr a, g1) \<and> f a g1 = (Inr b, g'))"
  by (cases r; cases "fst r") (auto simp: and_then_def)

lemma draws_length: "length (fst (draws E n g)) = n"
  by (induction n arbitrary: g) (simp_all add: split_beta Let_def)

lemma draws_add: "snd (draws E (m + n) g) = snd (draws E n (snd (draws E m g)))"
  by (induction m arbitrary: g) (simp_all add: split_beta Let_def)

lemma np_random_normal_ok:
  "0 \<le> scale \<Longrightarrow>
   np_random_normal E loc scale shp g =
     (Inr \<lparr>shape = shp, data = map (\<lambda>z. loc + scale * z) (fst (draws E (prod_list shp) g))\<rparr>,
      snd (draws E (prod_list shp) g))"
  by (simp add: np_random_normal_def split_beta)

lemma np_random_normal_neg:
  "scale < 0 \<Longrightarrow> np_random_normal E loc scale shp g = (Inl ValueError, g)"
  by (simp add: np_random_normal_def)

lemma np_random_normal_Inr:
  "np_random_normal E loc scale shp g = (Inr a, g') \<Longrightarrow>
   shape a = shp \<and> length (data a) = prod_list shp \<and> g' = snd (draws E (prod_list shp) g)"
  by (auto simp: np_random_normal_def split_beta draws_length split: if_splits)

lemma take_drop_map_upt:
  "i < m \<Longrightarrow> take n (drop (i * n) (map h [0..<m * n])) = map (\<lambda>j. h (i * n + j)) [0..<n]"
proof -
  assume i: "i < m"
  have le: "i * n + n \<le> m * n"
  proof -
    have "Suc i * n \<le> m * n" using i by (simp only: mult_le_mono1 Suc_leI)
    then show ?thesis by (simp add: add.commute)
  qed
  have "take n (drop (i * n) (map h [0..<m * n])) = map h (take n (drop (i * n) [0..<m * n]))"
    by (simp add: take_map drop_map)
  also have "take n (drop (i * n) [0..<m * n]) = [i * n..<i * n + n]"
    using le by (simp add: take_upt)
  also have "map h [i * n..<i * n + n] = map (\<lambda>j. h (i * n + j)) [0..<n]"
    by (simp add: map_add_upt [symmetric] add.commute)
  finally show ?thesis .
qed

lemma tolist2_mk2: "tolist2 (mk2 m n f) = map (\<lambda>i. map (f i) [0..<n]) [0..<m]"
proof -
  have "take n (drop (i * n) (map (\<lambda>k. f (k div n) (k mod n)) [0..<m * n])) = map (f i) [0..<n]"
    if "i < m" for i
    using take_drop_map_upt [OF that, of n "\<lambda>k. f (k div n) (k mod n)"] by simp
  then show ?thesis by (simp add: tolist2_def mk2_def)
qed

lemma svd_rows:
  "tolist2 (T2 (np_linalg_svd_u E a)) =
     map (\<lambda>i. map (\<lambda>j. svd_u E a j i) [0..<shape a ! 0]) [0..<shape a ! 0]"
  by (simp add: np_linalg_svd_u_def Let_def T2_mk2 tolist2_mk2)

subsection \<open>The basis generator\<close>

lemma shape_symmetrize: "shape (symmetrize a) = shape a"
  by (simp add: symmetrize_def np_sub_def np_add_def)

text \<open>The rows one iteration of the loop appends, for the sample \<open>a\<close>.\<close>

lemma basis_blocks_Suc:
  "basis_blocks E sz (Suc n) g =
     (let a = \<lparr>shape = [sz, sz], data = map (\<lambda>z. 0 + 1 * z) (fst (draws E (sz * sz) g))\<rparr>;
          g1 = snd (draws E (sz * sz) g)
      in and_then (basis_blocks E sz n g1) (\<lambda>li g2.
           (Inr (map (\<lambda>i. map (\<lambda>j. svd_u E (symmetrize a) j i) [0..<sz]) [0..<sz] @ li), g2)))"
  by (simp add: np_random_normal_ok and_then_Inr Let_def svd_rows shape_symmetrize)

lemma basis_blocks_ok:
  "\<exists>li. basis_blocks E sz n g = (Inr li, snd (draws E (n * (sz * sz)) g)) \<and>
        length li = n * sz \<and> (\<forall>r\<in>set li. length r = sz)"
proof (induction n arbitrary: g)
  case 0
  show ?case by simp
next
  case (Suc n)
  obtain li where li: "basis_blocks E sz n (snd (draws E (sz * sz) g))
      = (Inr li, snd (draws E (n * (sz * sz)) (snd (draws E (sz * sz) g))))"
    "length li = n * sz" "\<forall>r\<in>set li. length r = sz"
    using Suc.IH by blast
  show ?case
    unfolding basis_blocks_Suc Let_def li(1) and_then_Inr
    using li(2,3) by (auto simp: draws_add)
qed

lemma take_drop_concat:
  "\<forall>r\<in>set rows. length r = n \<Longrightarrow> i < length rows \<Longrightarrow>
   take n (drop (i * n) (concat rows)) = rows ! i"
proof (induction rows arbitrary: i)
  case Nil
  then show ?case by simp
next
  case (Cons r rows)
  show ?case
  proof (cases i)
    case 0
    then show ?thesis using Cons.prems by simp
  next
    case (Suc k)
    then show ?thesis using Cons.prems Cons.IH [of k] by simp
  qed
qed

lemma tolist2_np_array2:
  "rows \<noteq> [] \<Longrightarrow> \<forall>r\<in>set rows. length r = n \<Longrightarrow> tolist2 (np_array2 rows) = rows"
proof -
  assume ne: "rows \<noteq> []" and len: "\<forall>r\<in>set rows. length r = n"
  obtain r rs where rows: "rows = r # rs" using ne by (cases rows) auto
  have n: "length r = n" using len rows by simp
  have "tolist2 (np_array2 rows) = map (\<lambda>i. take n (drop (i * n) (concat rows))) [0..<length rows]"
    using n by (simp add: tolist2_def np_array2_def rows)
  also have "\<dots> = map (\<lambda>i. rows ! i) [0..<length rows]"
    using take_drop_concat [OF len] by simp
  also have "\<dots> = rows" by (rule map_nth)
  finally show ?thesis .
qed

lemma np_array2_shape:
  "rows \<noteq> [] \<Longrightarrow> \<forall>r\<in>set rows. length r = n \<Longrightarrow>
   shape (np_array2 rows) = [length rows, n] \<and> length (data (np_array2 rows)) = length rows * n"
proof (induction rows)
  case Nil
  then show ?case by simp
next
  case (Cons r rows)
  have "length (concat rows) = length rows * n" using Cons.prems(2)
    by (induction rows) simp_all
  then show ?case using Cons.prems by (simp add: np_array2_def)
qed

lemma nbb_enough: "0 < (sz::nat) \<Longrightarrow> filters \<le> (filters div sz + 1) * sz"
proof -
  assume "0 < sz"
  have a: "filters div sz * sz + filters mod sz = filters" by simp
  have b: "filters mod sz \<le> sz" using \<open>0 < sz\<close> by (simp add: less_imp_le)
  from a b have "filters \<le> filters div sz * sz + sz" by linarith
  then show ?thesis by simp
qed

lemma nbb_ceiling:
  assumes "0 < (sz::nat)"
  shows "filters div sz + 1 = nat \<lceil>real filters / real sz\<rceil> + (if sz dvd filters then 1 else 0)"
proof (cases "sz dvd filters")
  case True
  then obtain k where k: "filters = sz * k" by (auto simp: dvd_def)
  have "real filters / real sz = real k" using assms by (simp add: k)
  then have "nat \<lceil>real filters / real sz\<rceil> = k" by simp
  moreover have "filters div sz = k" using assms by (simp add: k)
  ultimately show ?thesis using True by simp
next
  case False
  define q where "q = filters div sz"
  define r where "r = filters mod sz"
  have f: "filters = q * sz + r" by (simp add: q_def r_def)
  have r: "0 < r" "r < sz" using False assms by (auto simp: r_def dvd_eq_mod_eq_0)
  have "real filters / real sz = real q + real r / real sz"
    using assms by (simp add: f add_divide_distrib)
  moreover have "0 < real r / real sz" "real r / real sz < 1" using r assms by simp_all
  ultimately have "\<lceil>real filters / real sz\<rceil> = int q + 1"
    by (intro ceiling_unique) simp_all
  then show ?thesis using False by (simp add: q_def)
qed

lemma create_basis_run:
  assumes "1 \<le> filters" and "1 < sz"
  shows "filters div sz + 1
           = nat \<lceil>real filters / real sz\<rceil> + (if sz dvd filters then 1 else 0) \<and>
         (\<exists>li. basis_blocks E sz (filters div sz + 1) g
                 = (Inr li, snd (draws E ((filters div sz + 1) * (sz * sz)) g)) \<and>
              length li = (filters div sz + 1) * sz \<and>
              create_basis E self filters sz g
                 = (Inr (np_array2 (take filters li)),
                    snd (draws E ((filters div sz + 1) * (sz * sz)) g)) \<and>
              shape (np_array2 (take filters li)) = [filters, sz] \<and>
              tolist2 (np_array2 (take filters li)) = take filters li)"
proof -
  obtain li where li: "basis_blocks E sz (filters div sz + 1) g
      = (Inr li, snd (draws E ((filters div sz + 1) * (sz * sz)) g))"
    "length li = (filters div sz + 1) * sz" "\<forall>r\<in>set li. length r = sz"
    using basis_blocks_ok [of E sz "filters div sz + 1" g] by blast
  have "filters \<le> (filters div sz + 1) * sz" using assms(2) by (intro nbb_enough) simp
  then have enough: "filters \<le> length li" by (simp only: li(2))
  have ne: "take filters li \<noteq> []" using assms(1) enough by auto
  have rows: "\<forall>r\<in>set (take filters li). length r = sz"
    using li(3) by (auto dest: in_set_takeD)
  have "sz \<noteq> 1" using assms(2) by simp
  then have c: "create_basis E self filters sz g
      = (Inr (np_array2 (take filters li)), snd (draws E ((filters div sz + 1) * (sz * sz)) g))"
    unfolding create_basis_def Let_def li(1) and_then_Inr by (rule if_not_P)
  have "length (take filters li) = filters" using enough by simp
  then have s: "shape (np_array2 (take filters li)) = [filters, sz]"
    using np_array2_shape [OF ne rows] by simp
  have t: "tolist2 (np_array2 (take filters li)) = take filters li"
    using ne rows by (rule tolist2_np_array2)
  have "\<exists>li. basis_blocks E sz (filters div sz + 1) g
                 = (Inr li, snd (draws E ((filters div sz + 1) * (sz * sz)) g)) \<and>
              length li = (filters div sz + 1) * sz \<and>
              create_basis E self filters sz g
                 = (Inr (np_array2 (take filters li)),
                    snd (draws E ((filters div sz + 1) * (sz * sz)) g)) \<and>
              shape (np_array2 (take filters li)) = [filters, sz] \<and>
              tolist2 (np_array2 (take filters li)) = take filters li"
    by (rule exI [of _ li]) (simp only: li(1) li(2) c s t simp_thms)
  moreover have "filters div sz + 1
      = nat \<lceil>real filters / real sz\<rceil> + (if sz dvd filters then 1 else 0)"
    using assms(2) by (intro nbb_ceiling) simp
  ultimately show ?thesis by (rule conjI [rotated])
qed

text \<open>
  Claim C4, as the code has it. For every count \<open>filters \<ge> 1\<close> and dimension \<open>sz > 1\<close>,
  \<open>create_basis\<close> runs the block step \<open>filters div sz + 1\<close> times (each samples an \<open>sz\<close> by
  \<open>sz\<close> matrix, so \<open>(filters div sz + 1) * sz\<^sup>2\<close> numbers are drawn), which gives
  \<open>(filters div sz + 1) * sz\<close> candidate rows; it keeps the first \<open>filters\<close> of them and
  returns them as a matrix of shape \<open>(filters, sz)\<close>. The number of repetitions is the
  ceiling of \<open>filters / sz\<close> only where \<open>sz\<close> does not divide \<open>filters\<close>, and one more
  where it does.
\<close>

theorem create_basis_blocks:
  assumes "1 \<le> filters" and "1 < sz"
  shows "filters div sz + 1
           = nat \<lceil>real filters / real sz\<rceil> + (if sz dvd filters then 1 else 0) \<and>
         (\<exists>li. basis_blocks E sz (filters div sz + 1) g
                 = (Inr li, snd (draws E ((filters div sz + 1) * (sz * sz)) g)) \<and>
              length li = (filters div sz + 1) * sz \<and>
              create_basis E self filters sz g
                 = (Inr (np_array2 (take filters li)),
                    snd (draws E ((filters div sz + 1) * (sz * sz)) g)) \<and>
              shape (np_array2 (take filters li)) = [filters, sz] \<and>
              tolist2 (np_array2 (take filters li)) = take filters li)"
  using assms by (rule create_basis_run)

lemma draws_E0: "draws E0 n g = (map real [g..<g + n], g + n)"
proof (induction n arbitrary: g)
  case 0
  show ?case by simp
next
  case (Suc n)
  have "[g..<Suc (g + n)] = g # [Suc g..<Suc (g + n)]" by (simp add: upt_conv_Cons)
  then show ?case using Suc [of "Suc g"] by (simp add: E0_def)
qed

lemma orthonormal_columnsD:
  "orthonormal_columns n u \<Longrightarrow> i < n \<Longrightarrow> j < n \<Longrightarrow>
   sum_list (map (\<lambda>k. u k i * u k j) [0..<n]) = (if i = j then 1 else 0)"
  by (simp add: orthonormal_columns_def list_all_iff)

lemma dot_map: "dot (map f xs) (map h xs) = sum_list (map (\<lambda>k. f k * h k) xs)"
  by (induction xs) (simp_all add: dot_def)

text \<open>
  Claim C5. For \<open>1 < sz\<close> and \<open>filters \<le> sz\<close>, when the decomposition returns a \<open>u\<close>
  with orthonormal columns, \<open>create_basis\<close> returns a matrix whose rows have unit length
  and are mutually orthogonal: the inner product of two distinct rows is 0 in exact
  arithmetic, so its magnitude is below \<open>10\<^sup>-\<^sup>6\<close>.
\<close>

theorem create_basis_orthogonal:
  assumes "1 < sz" and "filters \<le> sz"
    and svd: "\<forall>a. shape a = [sz, sz] \<longrightarrow> orthonormal_columns sz (svd_u E a)"
  shows "\<exists>p g'. create_basis E self filters sz g = (Inr p, g') \<and>
           (\<forall>i<filters. \<forall>j<filters.
              dot (tolist2 p ! i) (tolist2 p ! j) = (if i = j then 1 else 0) \<and>
              (i \<noteq> j \<longrightarrow> \<bar>dot (tolist2 p ! i) (tolist2 p ! j)\<bar> < 1 / 10 ^ 6))"
proof -
  define a where "a = symmetrize
    \<lparr>shape = [sz, sz], data = map (\<lambda>z. 0 + 1 * z) (fst (draws E (sz * sz) g))\<rparr>"
  define block where "block = map (\<lambda>i. map (\<lambda>j. svd_u E a j i) [0..<sz]) [0..<sz]"
  define m where "m = filters div sz"
  have a: "shape a = [sz, sz]" by (simp add: a_def shape_symmetrize)
  obtain li' g1 where li': "basis_blocks E sz m (snd (draws E (sz * sz) g)) = (Inr li', g1)"
    using basis_blocks_ok [of E sz m "snd (draws E (sz * sz) g)"] by blast
  have b: "basis_blocks E sz (filters div sz + 1) g = (Inr (block @ li'), g1)"
    unfolding m_def [symmetric] Suc_eq_plus1 [symmetric] basis_blocks_Suc Let_def
      a_def [symmetric] block_def [symmetric] li' and_then_Inr ..
  have "sz \<noteq> 1" using assms(1) by simp
  then have c: "create_basis E self filters sz g = (Inr (np_array2 (take filters (block @ li'))), g1)"
    unfolding create_basis_def Let_def b and_then_Inr by (rule if_not_P)
  have t: "take filters (block @ li') = take filters block"
    using assms(2) by (simp add: block_def)
  have orth: "dot (tolist2 (np_array2 (take filters block)) ! i)
                  (tolist2 (np_array2 (take filters block)) ! j) = (if i = j then 1 else 0)"
    if "i < filters" "j < filters" for i j
  proof -
    have ne: "take filters block \<noteq> []" using that(1) assms(2) by (auto simp: block_def)
    have rows: "\<forall>r\<in>set (take filters block). length r = sz"
      by (auto dest!: in_set_takeD simp: block_def)
    have tl: "tolist2 (np_array2 (take filters block)) = take filters block"
      using ne rows by (rule tolist2_np_array2)
    have i: "take filters block ! i = map (\<lambda>k. svd_u E a k i) [0..<sz]"
      and j: "take filters block ! j = map (\<lambda>k. svd_u E a k j) [0..<sz]"
      using that assms(2) by (simp_all add: block_def)
    have "orthonormal_columns sz (svd_u E a)" using svd a by blast
    then have "sum_list (map (\<lambda>k. svd_u E a k i * svd_u E a k j) [0..<sz])
        = (if i = j then 1 else 0)"
      using that assms(2) by (intro orthonormal_columnsD) simp_all
    then show ?thesis by (simp only: tl i j dot_map)
  qed
  have "\<forall>i<filters. \<forall>j<filters.
      dot (tolist2 (np_array2 (take filters block)) ! i)
          (tolist2 (np_array2 (take filters block)) ! j) = (if i = j then 1 else 0) \<and>
      (i \<noteq> j \<longrightarrow> \<bar>dot (tolist2 (np_array2 (take filters block)) ! i)
                       (tolist2 (np_array2 (take filters block)) ! j)\<bar> < 1 / 10 ^ 6)"
    using orth by simp
  then show ?thesis unfolding c t by blast
qed

theorem create_basis_orthogonal_witness:
  "\<exists>p g'. create_basis E0 (ConvolutionAware (5 / 100) None) 2 2 0 = (Inr p, g') \<and>
     dot (tolist2 p ! 0) (tolist2 p ! 1) = 0 \<and> dot (tolist2 p ! 1) (tolist2 p ! 1) = 1 \<and>
     \<bar>dot (tolist2 p ! 0) (tolist2 p ! 1)\<bar> < 1 / 10 ^ 6"
proof -
  have h: "\<forall>a. shape a = [2, 2] \<longrightarrow> orthonormal_columns 2 (svd_u E0 a)"
    by (simp add: E0_def orthonormal_columns_def upt_rec)
  obtain p g' where p: "create_basis E0 (ConvolutionAware (5 / 100) None) 2 2 0 = (Inr p, g')"
    and o: "\<forall>i<2. \<forall>j<2.
      dot (tolist2 p ! i) (tolist2 p ! j) = (if i = j then 1 else 0) \<and>
      (i \<noteq> j \<longrightarrow> \<bar>dot (tolist2 p ! i) (tolist2 p ! j)\<bar> < 1 / 10 ^ 6)"
    using create_basis_orthogonal [where filters = 2 and sz = 2 and E = E0 and g = 0
        and self = "ConvolutionAware (5 / 100) None", OF _ _ h]
    by auto
  have "dot (tolist2 p ! 0) (tolist2 p ! 1) = 0" using o by force
  moreover have "dot (tolist2 p ! 1) (tolist2 p ! 1) = 1" using o by force
  moreover have "\<bar>dot (tolist2 p ! 0) (tolist2 p ! 1)\<bar> < 1 / 10 ^ 6" using o by force
  ultimately show ?thesis using p by blast
qed

theorem create_basis_blocks_witness:
  "\<exists>li. basis_blocks E0 2 3 0 = (Inr li, 12) \<and> length li = 6 \<and>
     create_basis E0 (ConvolutionAware (5 / 100) None) 4 2 0 = (Inr (np_array2 (take 4 li)), 12) \<and>
     shape (np_array2 (take 4 li)) = [4, 2] \<and>
     tolist2 (np_array2 (take 4 li)) = take 4 li"
  using create_basis_blocks [where filters = 4 and sz = 2 and E = E0 and g = 0
      and self = "ConvolutionAware (5 / 100) None"]
  by (simp add: draws_E0)

text \<open>
  Claim C4 as stated fails: for 4 rows of dimension 2 the ceiling of \<open>4 / 2\<close> is 2, and two
  block steps leave the generator after 8 draws, where \<open>create_basis\<close> runs three and
  leaves it after 12.
\<close>

theorem create_basis_extra_block:
  "create_basis E0 (ConvolutionAware (5 / 100) None) 4 2 0 \<noteq>
   and_then (basis_blocks E0 2 (nat \<lceil>4 / 2 :: real\<rceil>) 0)
     (\<lambda>li g1. (Inr (np_array2 (take 4 li)), g1))"
proof -
  have n: "nat \<lceil>4 / 2 :: real\<rceil> = 2" by simp
  obtain li where "create_basis E0 (ConvolutionAware (5 / 100) None) 4 2 0
      = (Inr (np_array2 (take 4 li)), 12)"
    using create_basis_run [where filters = 4 and sz = 2 and E = E0 and g = 0
      and self = "ConvolutionAware (5 / 100) None"]
    by (auto simp: draws_E0)
  moreover obtain li' where "basis_blocks E0 2 2 0 = (Inr li', 8)"
    using basis_blocks_ok [of E0 2 2 0] by (auto simp: draws_E0)
  ultimately show ?thesis by (simp add: n and_then_Inr)
qed

subsection \<open>The shape of the result\<close>

lemma make_filters_Inr:
  "make_filters E self ks xs g = (Inr fs, g') \<Longrightarrow>
   length fs = length xs \<and> (\<forall>f\<in>set fs. shape f = ks \<and> length (data f) = prod_list ks)"
proof (induction xs arbitrary: g fs g')
  case Nil
  then show ?case by simp
next
  case (Cons x xs)
  from Cons.prems obtain noise g1 fs' where
    n: "np_random_normal E 0 (eps_std self) ks g = (Inr noise, g1)"
    and r: "make_filters E self ks xs g1 = (Inr fs', g')"
    and fs: "fs = np_add (np_fft_irfftn E x ks) noise # fs'"
    by (auto simp: and_then_eq_Inr)
  have "length (data noise) = prod_list ks" using np_random_normal_Inr [OF n] by simp
  then have "shape (np_add (np_fft_irfftn E x ks) noise) = ks \<and>
      length (data (np_add (np_fft_irfftn E x ks) noise)) = prod_list ks"
    by (simp add: np_add_def np_fft_irfftn_def)
  then show ?case using Cons.IH [OF r] fs by simp
qed

lemma make_filters_total:
  "0 \<le> eps_std self \<Longrightarrow> \<exists>fs g'. make_filters E self ks xs g = (Inr fs, g')"
proof (induction xs arbitrary: g)
  case Nil
  show ?case by simp
next
  case (Cons x xs)
  obtain fs g' where "make_filters E self ks xs (snd (draws E (prod_list ks) g)) = (Inr fs, g')"
    using Cons.IH [OF Cons.prems, of "snd (draws E (prod_list ks) g)"] by blast
  then show ?case using Cons.prems by (simp add: np_random_normal_ok and_then_Inr)
qed

lemma create_basis_total:
  "0 \<le> eps_std self \<Longrightarrow> \<exists>p g'. create_basis E self filters sz g = (Inr p, g')"
proof (cases "sz = 1")
  case True
  assume "0 \<le> eps_std self"
  then show ?thesis using True by (simp add: create_basis_def np_random_normal_ok)
next
  case False
  obtain li where "basis_blocks E sz (filters div sz + 1) g
      = (Inr li, snd (draws E ((filters div sz + 1) * (sz * sz)) g))"
    using basis_blocks_ok [of E sz "filters div sz + 1" g] by blast
  then have "create_basis E self filters sz g
      = (Inr (np_array2 (take filters li)), snd (draws E ((filters div sz + 1) * (sz * sz)) g))"
    unfolding create_basis_def Let_def using False by (simp only: and_then_Inr if_False)
  then show ?thesis by blast
qed

lemma iter0_length: "length (iter0 (reshape a (n # s))) = n"
  by (simp add: iter0_def reshape_def Let_def)

lemma init_loop_Inr:
  "init_loop E self ks kfs stack n g = (Inr init, g') \<Longrightarrow>
   length init = n \<and>
   (\<forall>fs\<in>set init. length fs = stack \<and>
      (\<forall>f\<in>set fs. shape f = ks \<and> length (data f) = prod_list ks))"
proof (induction n arbitrary: g init g')
  case 0
  then show ?case by simp
next
  case (Suc n)
  from Suc.prems obtain basis g1 filters g2 init' where
    f: "make_filters E self ks (iter0 (reshape basis (stack # kfs))) g1 = (Inr filters, g2)"
    and r: "init_loop E self ks kfs stack n g2 = (Inr init', g')"
    and i: "init = filters # init'"
    by (auto simp: and_then_eq_Inr Let_def)
  show ?case using make_filters_Inr [OF f] Suc.IH [OF r] i by (simp add: iter0_length)
qed

lemma init_loop_total:
  "0 \<le> eps_std self \<Longrightarrow> \<exists>init g'. init_loop E self ks kfs stack n g = (Inr init, g')"
proof (induction n arbitrary: g)
  case 0
  show ?case by simp
next
  case (Suc n)
  obtain basis g1 where b: "create_basis E self stack (prod_list kfs) g = (Inr basis, g1)"
    using create_basis_total [OF Suc.prems, of E stack "prod_list kfs" g] by blast
  obtain filters g2 where
    f: "make_filters E self ks (iter0 (reshape basis (stack # kfs))) g1 = (Inr filters, g2)"
    using make_filters_total [OF Suc.prems, of E ks "iter0 (reshape basis (stack # kfs))" g1]
    by blast
  obtain init g3 where r: "init_loop E self ks kfs stack n g2 = (Inr init, g3)"
    using Suc.IH [OF Suc.prems, of g2] by blast
  show ?case by (simp add: b f r and_then_Inr Let_def)
qed

lemma length_concat_const:
  "\<forall>x\<in>set xs. length (f x) = c \<Longrightarrow> length (concat (map f xs)) = length xs * c"
  by (induction xs) simp_all

lemma np_array_nested_shape:
  assumes "0 < length init" and "0 < stack"
    and "\<forall>fs\<in>set init. length fs = stack \<and>
           (\<forall>f\<in>set fs. shape f = ks \<and> length (data f) = prod_list ks)"
  shows "shape (np_array_nested init) = length init # stack # ks \<and>
         length (data (np_array_nested init)) = length init * (stack * prod_list ks)"
proof -
  obtain fs init' where i: "init = fs # init'" using assms(1) by (cases init) auto
  have fs: "length fs = stack" "\<forall>f\<in>set fs. shape f = ks" using assms(3) i by auto
  obtain f fs' where f: "fs = f # fs'" using fs(1) assms(2) by (cases fs) auto
  have s: "shape (np_array_nested init) = length init # stack # ks"
    using fs by (simp add: np_array_nested_def i f)
  have "\<forall>fs\<in>set init. length (concat (map data fs)) = stack * prod_list ks"
    using assms(3) by (auto simp: length_concat_const)
  then have "length (data (np_array_nested init)) = length init * (stack * prod_list ks)"
    by (simp add: np_array_nested_def length_concat_const)
  then show ?thesis using s by simp
qed

lemma filter_bank_Inr:
  assumes "filter_bank E self ks stack n g = (Inr bank, g')" and "0 < stack" and "0 < n"
  shows "shape bank = n # stack # ks \<and> length (data bank) = n * (stack * prod_list ks)"
proof -
  from assms(1) obtain init where
    i: "init_loop E self ks (rfft_shape ks) stack n g = (Inr init, g')"
    and b: "bank = np_array_nested init"
    by (auto simp: filter_bank_def Let_def and_then_eq_Inr)
  note p = init_loop_Inr [OF i]
  have "0 < length init" using p assms(3) by simp
  then show ?thesis using np_array_nested_shape [OF _ assms(2), of init ks] p b by simp
qed

lemma filter_bank_total:
  "0 \<le> eps_std self \<Longrightarrow> \<exists>bank g'. filter_bank E self ks stack n g = (Inr bank, g')"
proof -
  assume e: "0 \<le> eps_std self"
  obtain init g' where "init_loop E self ks (rfft_shape ks) stack n g = (Inr init, g')"
    using init_loop_total [OF e, of E ks "rfft_shape ks" stack n g] by blast
  then show ?thesis by (simp add: filter_bank_def Let_def and_then_Inr)
qed

lemma shape_scale_filters: "shape (scale_filters a v) = shape a"
  by (simp add: scale_filters_def Let_def)

lemma shape_np_transpose: "shape (np_transpose a axes) = map (\<lambda>p. shape a ! p) axes"
  by (simp add: np_transpose_def Let_def)

lemma spectral_Inr:
  assumes "spectral E self ks stack n axes v g = (Inr out, g')" and "0 < stack" and "0 < n"
  shows "shape out = map (\<lambda>p. (n # stack # ks) ! p) axes"
proof -
  from assms(1) obtain bank where
    b: "filter_bank E self ks stack n g = (Inr bank, g')"
    and o: "out = np_transpose (scale_filters bank v) axes"
    by (auto simp: spectral_def and_then_eq_Inr)
  show ?thesis using filter_bank_Inr [OF b assms(2,3)]
    by (simp add: o shape_np_transpose shape_scale_filters)
qed

lemma spectral_total:
  "0 \<le> eps_std self \<Longrightarrow> \<exists>out g'. spectral E self ks stack n axes v g = (Inr out, g')"
proof -
  assume e: "0 \<le> eps_std self"
  obtain bank g' where "filter_bank E self ks stack n g = (Inr bank, g')"
    using filter_bank_total [OF e, of E ks stack n g] by blast
  then show ?thesis by (simp add: spectral_def and_then_Inr)
qed

lemma seed_step:
  "valid_seed self \<Longrightarrow>
   (case seed self of None \<Rightarrow> (Inr (), g) | Some s \<Rightarrow> np_seed E s g)
     = (Inr (), case seed self of None \<Rightarrow> g | Some s \<Rightarrow> np_random_seed E s)"
  by (auto simp: valid_seed_def np_seed_def split: option.splits)

subsection \<open>The call\<close>

lemma call_spectral4:
  "valid_seed self \<Longrightarrow>
   call E self [row, column, stack_size, filters_size] g =
     spectral E self [row, column] stack_size filters_size [2, 3, 0, 1]
       (fdiv (Fin 2) (Fin (fst (compute_fans E [row, column, stack_size, filters_size]))))
       (case seed self of None \<Rightarrow> g | Some s \<Rightarrow> np_random_seed E s)"
  by (simp add: call_def seed_step and_then_Inr Let_def)

lemma call_spectral3:
  "valid_seed self \<Longrightarrow>
   call E self [row, stack_size, filters_size] g =
     spectral E self [row] stack_size filters_size [2, 1, 0]
       (fdiv (Fin 2) (Fin (fst (compute_fans E [row, stack_size, filters_size]))))
       (case seed self of None \<Rightarrow> g | Some s \<Rightarrow> np_random_seed E s)"
  by (simp add: call_def seed_step and_then_Inr Let_def)

lemma call_spectral5:
  "valid_seed self \<Longrightarrow>
   call E self [x, y, z, stack_size, filters_size] g =
     spectral E self [x, y, z] stack_size filters_size [3, 4, 0, 1, 2]
       (fdiv (Fin 2) (Fin (fst (compute_fans E [x, y, z, stack_size, filters_size]))))
       (case seed self of None \<Rightarrow> g | Some s \<Rightarrow> np_random_seed E s)"
  by (simp add: call_def seed_step and_then_Inr Let_def)

text \<open>
  Claim C1, at rank 4. For a shape \<open>(row, column, stack_size, filters_size)\<close> with
  positive entries, a non-negative \<open>eps_std\<close> and a seed numpy accepts, the call returns
  an array, and its shape is \<open>(row, column, filters_size, stack_size)\<close>: the permutation
  \<open>(2, 3, 0, 1)\<close> of the layout (filters, stack, row, column) leaves the two channel axes
  in the order filters, stack. The result has the requested shape only when
  \<open>stack_size = filters_size\<close>; for \<open>(3, 3, 4, 8)\<close> it is \<open>(3, 3, 8, 4)\<close>.
\<close>

theorem call_rank4_shape:
  assumes "0 \<le> eps_std self" and "valid_seed self"
    and "0 < row" and "0 < column" and "0 < stack_size" and "0 < filters_size"
  shows "\<exists>out g'. call E self [row, column, stack_size, filters_size] g = (Inr out, g') \<and>
           shape out = [row, column, filters_size, stack_size]"
proof -
  let ?v = "fdiv (Fin 2) (Fin (fst (compute_fans E [row, column, stack_size, filters_size])))"
  let ?g = "case seed self of None \<Rightarrow> g | Some s \<Rightarrow> np_random_seed E s"
  obtain out g' where
    s: "spectral E self [row, column] stack_size filters_size [2, 3, 0, 1] ?v ?g = (Inr out, g')"
    using spectral_total [OF assms(1), of E "[row, column]" stack_size filters_size
        "[2, 3, 0, 1]" ?v ?g]
    by blast
  have "shape out = [row, column, filters_size, stack_size]"
    using spectral_Inr [OF s assms(5,6)] by simp
  then show ?thesis using s by (simp add: call_spectral4 [OF assms(2)])
qed

theorem call_rank4_shape_witness:
  "\<exists>out g'. call E0 (ConvolutionAware (5 / 100) (Some 42)) [3, 3, 4, 8] 0 = (Inr out, g') \<and>
     shape out = [3, 3, 8, 4] \<and> shape out \<noteq> [3, 3, 4, 8]"
proof -
  have "\<exists>out g'. call E0 (ConvolutionAware (5 / 100) (Some 42)) [3, 3, 4, 8] 0 = (Inr out, g') \<and>
     shape out = [3, 3, 8, 4]"
    by (rule call_rank4_shape) (simp_all add: ConvolutionAware_def valid_seed_def)
  then show ?thesis by auto
qed

text \<open>
  At rank 3 the permutation \<open>(2, 1, 0)\<close> restores the requested shape.
\<close>

theorem call_rank3_shape:
  assumes "0 \<le> eps_std self" and "valid_seed self"
    and "0 < row" and "0 < stack_size" and "0 < filters_size"
  shows "\<exists>out g'. call E self [row, stack_size, filters_size] g = (Inr out, g') \<and>
           shape out = [row, stack_size, filters_size]"
proof -
  let ?v = "fdiv (Fin 2) (Fin (fst (compute_fans E [row, stack_size, filters_size])))"
  let ?g = "case seed self of None \<Rightarrow> g | Some s \<Rightarrow> np_random_seed E s"
  obtain out g' where
    s: "spectral E self [row] stack_size filters_size [2, 1, 0] ?v ?g = (Inr out, g')"
    using spectral_total [OF assms(1), of E "[row]" stack_size filters_size "[2, 1, 0]" ?v ?g]
    by blast
  have "shape out = [row, stack_size, filters_size]"
    using spectral_Inr [OF s assms(4,5)] by simp
  then show ?thesis using s by (simp add: call_spectral3 [OF assms(2)])
qed

text \<open>
  At rank 5 the permutation \<open>(3, 4, 0, 1, 2)\<close> of the layout (filters, stack, x, y, z) gives
  the shape \<open>(y, z, filters_size, stack_size, x)\<close>.
\<close>

theorem call_rank5_shape:
  assumes "0 \<le> eps_std self" and "valid_seed self"
    and "0 < x" and "0 < y" and "0 < z" and "0 < stack_size" and "0 < filters_size"
  shows "\<exists>out g'. call E self [x, y, z, stack_size, filters_size] g = (Inr out, g') \<and>
           shape out = [y, z, filters_size, stack_size, x]"
proof -
  let ?v = "fdiv (Fin 2) (Fin (fst (compute_fans E [x, y, z, stack_size, filters_size])))"
  let ?g = "case seed self of None \<Rightarrow> g | Some s \<Rightarrow> np_random_seed E s"
  obtain out g' where
    s: "spectral E self [x, y, z] stack_size filters_size [3, 4, 0, 1, 2] ?v ?g = (Inr out, g')"
    using spectral_total [OF assms(1), of E "[x, y, z]" stack_size filters_size
        "[3, 4, 0, 1, 2]" ?v ?g]
    by blast
  have "shape out = [y, z, filters_size, stack_size, x]"
    using spectral_Inr [OF s assms(6,7)] by (simp add: numeral_3_eq_3 eval_nat_numeral)
  then show ?thesis using s by (simp add: call_spectral5 [OF assms(2)])
qed

text \<open>
  Claim C3. With a configured seed, the outcome of a call (the array, or the exception) is
  the same whatever state the process-wide generator was in before: two calls with the
  same seed, \<open>eps_std\<close> and shape return identical arrays.
\<close>

theorem call_seeded_deterministic:
  "fst (call E (ConvolutionAware e (Some s)) shp g1)
     = fst (call E (ConvolutionAware e (Some s)) shp g2)"
  by (simp add: call_def ConvolutionAware_def np_seed_def and_then_def)

subsection \<open>The fallback\<close>

lemma draws_cong: "gauss E' = gauss E \<Longrightarrow> draws E' n g = draws E n g"
  by (induction n arbitrary: g) simp_all

lemma orthogonal_cong:
  "gauss E' = gauss E \<Longrightarrow> svd_q E' = svd_q E \<Longrightarrow> orthogonal E' shp g = orthogonal E shp g"
  by (simp add: orthogonal_def np_random_normal_def draws_cong [of E' E])

lemma prod_list_butlast: "shp \<noteq> [] \<Longrightarrow> prod_list (butlast shp) * last shp = prod_list shp"
proof -
  assume "shp \<noteq> []"
  then have "prod_list shp = prod_list (butlast shp @ [last shp])" by simp
  then show ?thesis by (simp del: append_butlast_last_id)
qed

lemma orthogonal_rank2:
  assumes "2 \<le> length shp"
  shows "\<exists>q. orthogonal E shp g = (Inr q, snd (draws E (prod_list shp) g)) \<and>
           shape q = shp \<and> length (data q) = prod_list shp"
proof -
  have ne: "shp \<noteq> []" using assms by auto
  have "\<not> length shp < 2" using assms by simp
  then show ?thesis
    using ne by (simp add: orthogonal_def Let_def np_random_normal_ok and_then_Inr reshape_def
        prod_list_butlast)
qed

lemma orthogonal_rank_lt2:
  assumes "length shp < 2"
  shows "orthogonal E shp g
           = (Inl IndexError, if shp = [] then g else snd (draws E (prod_list shp) g))"
  using assms
  by (simp add: orthogonal_def Let_def np_random_normal_ok and_then_Inr prod_list_butlast)

lemma call_fallback_eq:
  assumes "length shp \<notin> {3, 4, 5}" and "valid_seed self"
  shows "call E self shp g
           = and_then
               (orthogonal E shp (case seed self of None \<Rightarrow> g | Some s \<Rightarrow> np_random_seed E s))
               (\<lambda>q g1. (Inr (K_variable q), g1))"
  using assms(1) by (simp add: call_def seed_step [OF assms(2)] and_then_Inr Let_def)

text \<open>
  Claim C7, as the code has it. For a shape with positive entries whose rank is not 3, 4
  or 5 and a seed numpy accepts, the outcome of the call is the outcome of the orthogonal
  initializer on the requested shape, and neither the inverse transform nor the
  decomposition of the basis generator has any part in it. For rank 2 and for rank 6 or
  more the call raises nothing and returns an array of finite numbers of exactly the
  requested shape. For rank 1 (and the empty shape) the orthogonal initializer raises
  \<^verbatim>\<open>IndexError\<close>, and so does the call.
\<close>

theorem call_fallback:
  assumes "length shp \<notin> {3, 4, 5}" and "\<forall>n\<in>set shp. 0 < n" and "valid_seed self"
  shows "call E self shp g
           = and_then
               (orthogonal E shp (case seed self of None \<Rightarrow> g | Some s \<Rightarrow> np_random_seed E s))
               (\<lambda>q g1. (Inr (K_variable q), g1)) \<and>
         call (E\<lparr>irfftn := f, svd_u := u\<rparr>) self shp g = call E self shp g \<and>
         (if 2 \<le> length shp
          then \<exists>q g1. call E self shp g = (Inr q, g1) \<and> shape q = shp \<and>
                 length (data q) = prod_list shp \<and> (\<forall>x\<in>set (data q). \<exists>r. x = Fin r)
          else \<exists>g1. call E self shp g = (Inl IndexError, g1))"
proof -
  let ?g = "case seed self of None \<Rightarrow> g | Some s \<Rightarrow> np_random_seed E s"
  let ?E = "E\<lparr>irfftn := f, svd_u := u\<rparr>"
  have c: "call E self shp g = and_then (orthogonal E shp ?g) (\<lambda>q g1. (Inr (K_variable q), g1))"
    using assms(1,3) by (rule call_fallback_eq)
  have g': "(case seed self of None \<Rightarrow> g | Some s \<Rightarrow> np_random_seed ?E s) = ?g"
    by (cases "seed self") simp_all
  have "call ?E self shp g = and_then (orthogonal ?E shp ?g) (\<lambda>q g1. (Inr (K_variable q), g1))"
    unfolding g' [symmetric] using assms(1,3) by (rule call_fallback_eq)
  also have "orthogonal ?E shp ?g = orthogonal E shp ?g" by (rule orthogonal_cong) simp_all
  finally have i: "call ?E self shp g = call E self shp g" by (simp only: c)
  have r: "if 2 \<le> length shp
      then \<exists>q g1. call E self shp g = (Inr q, g1) \<and> shape q = shp \<and>
             length (data q) = prod_list shp \<and> (\<forall>x\<in>set (data q). \<exists>r. x = Fin r)
      else \<exists>g1. call E self shp g = (Inl IndexError, g1)"
  proof (cases "2 \<le> length shp")
    case True
    obtain q where q: "orthogonal E shp ?g = (Inr q, snd (draws E (prod_list shp) ?g))"
      "shape q = shp" "length (data q) = prod_list shp"
      using orthogonal_rank2 [OF True, of E ?g] by blast
    have "call E self shp g = (Inr (K_variable q), snd (draws E (prod_list shp) ?g))"
      unfolding c q(1) and_then_Inr ..
    moreover have "shape (K_variable q) = shp" "length (data (K_variable q)) = prod_list shp"
      "\<forall>x\<in>set (data (K_variable q)). \<exists>r. x = Fin r"
      using q(2,3) by (auto simp: K_variable_def)
    ultimately show ?thesis using True by auto
  next
    case False
    then have "length shp < 2" by simp
    then show ?thesis using False unfolding c by (simp add: orthogonal_rank_lt2 and_then_Inl)
  qed
  show ?thesis using c i r by (simp only: simp_thms)
qed

theorem call_fallback_witness:
  "(\<exists>q g1. call E0 (ConvolutionAware (5 / 100) (Some 7)) [2, 3] 0 = (Inr q, g1) \<and>
      shape q = [2, 3] \<and> length (data q) = 6) \<and>
   (\<exists>g1. call E0 (ConvolutionAware (5 / 100) None) [64] 0 = (Inl IndexError, g1))"
proof -
  have v: "valid_seed (ConvolutionAware (5 / 100) (Some 7))"
    "valid_seed (ConvolutionAware (5 / 100) None)"
    by (simp_all add: valid_seed_def ConvolutionAware_def)
  have a: "length [2, 3 :: nat] \<notin> {3, 4, 5}" "\<forall>n\<in>set [2, 3 :: nat]. 0 < n"
    and b: "length [64 :: nat] \<notin> {3, 4, 5}" "\<forall>n\<in>set [64 :: nat]. 0 < n"
    by simp_all
  note t = call_fallback [OF a v(1), of E0 0, THEN conjunct2, THEN conjunct2]
    and w = call_fallback [OF b v(2), of E0 0, THEN conjunct2, THEN conjunct2]
  have "\<exists>q g1. call E0 (ConvolutionAware (5 / 100) (Some 7)) [2, 3] 0 = (Inr q, g1) \<and>
      shape q = [2, 3] \<and> length (data q) = 6"
    using t by auto
  moreover have "\<exists>g1. call E0 (ConvolutionAware (5 / 100) None) [64] 0 = (Inl IndexError, g1)"
    using w by simp
  ultimately show ?thesis by (rule conjI)
qed

text \<open>
  Claim C7 as stated fails at rank 1: for the shape \<open>(64,)\<close> the call seeds the generator,
  the orthogonal initializer draws its 64 numbers and then raises \<^verbatim>\<open>IndexError\<close> at
  \<^verbatim>\<open>shape[1]\<close>.
\<close>

theorem call_fallback_rank1_raises:
  "call E0 (ConvolutionAware (5 / 100) (Some 42)) [64] 0 = (Inl IndexError, 106)"
proof -
  have v: "valid_seed (ConvolutionAware (5 / 100) (Some 42))"
    by (simp add: valid_seed_def ConvolutionAware_def)
  have r: "length [64 :: nat] \<notin> {3, 4, 5}" by simp
  have g: "(case seed (ConvolutionAware (5 / 100) (Some 42)) of
      None \<Rightarrow> 0 | Some s \<Rightarrow> np_random_seed E0 s) = 42"
    by (simp add: E0_def ConvolutionAware_def)
  have o: "orthogonal E0 [64] 42 = (Inl IndexError, 106)"
    by (simp add: orthogonal_rank_lt2 draws_E0)
  show ?thesis unfolding call_fallback_eq [OF r v] g o and_then_Inl ..
qed

subsection \<open>Transposition permutes the elements\<close>

lemma unravel_valid: "k < prod_list s \<Longrightarrow> list_all2 (<) (unravel s k) s"
proof (induction s arbitrary: k)
  case Nil
  show ?case by simp
next
  case (Cons n ns)
  have k: "k < n * prod_list ns" using Cons.prems by simp
  then have p: "0 < prod_list ns" by (cases "prod_list ns") simp_all
  have "k div prod_list ns < n" using k by (rule less_mult_imp_div_less)
  moreover have "k mod prod_list ns < prod_list ns" using p by simp
  ultimately show ?case using Cons.IH by simp
qed

lemma ravel_less: "list_all2 (<) idx s \<Longrightarrow> ravel s idx < prod_list s"
proof (induction idx s rule: list_all2_induct)
  case Nil
  show ?case by simp
next
  case (Cons i idx n ns)
  have "i * prod_list ns + ravel ns idx < Suc i * prod_list ns" using Cons.IH by simp
  also have "\<dots> \<le> n * prod_list ns" using Cons.hyps(1) by (simp only: mult_le_mono1 Suc_leI)
  finally show ?case by simp
qed

lemma unravel_ravel: "list_all2 (<) idx s \<Longrightarrow> unravel s (ravel s idx) = idx"
proof (induction idx s rule: list_all2_induct)
  case Nil
  show ?case by simp
next
  case (Cons i idx n ns)
  have r: "ravel ns idx < prod_list ns" using Cons.hyps(2) by (rule ravel_less)
  then show ?case using Cons.IH by simp
qed

lemma ravel_unravel: "k < prod_list s \<Longrightarrow> ravel s (unravel s k) = k"
proof (induction s arbitrary: k)
  case Nil
  then show ?case by simp
next
  case (Cons n ns)
  have k: "k < n * prod_list ns" using Cons.prems by simp
  then have p: "0 < prod_list ns" by (cases "prod_list ns") simp_all
  have "k mod prod_list ns < prod_list ns" using p by simp
  then have "ravel ns (unravel ns (k mod prod_list ns)) = k mod prod_list ns" by (rule Cons.IH)
  then show ?case by simp
qed

lemma index_of_nth: "a \<in> set axes \<Longrightarrow> index_of axes a < length axes \<and> axes ! index_of axes a = a"
  by (induction axes) auto

lemma index_of_distinct: "distinct axes \<Longrightarrow> i < length axes \<Longrightarrow> index_of axes (axes ! i) = i"
proof (induction axes arbitrary: i)
  case Nil
  then show ?case by simp
next
  case (Cons p ps)
  then show ?case by (cases i) auto
qed

lemma prod_list_permuted:
  fixes s :: "nat list"
  assumes "distinct axes" and "set axes = {0..<length s}"
  shows "prod_list (map (\<lambda>p. s ! p) axes) = prod_list s"
proof -
  have "mset axes = mset [0..<length s]"
    using assms by (metis distinct_upt mset_set_set set_upt)
  then have "mset (map (\<lambda>p. s ! p) axes) = mset (map (\<lambda>p. s ! p) [0..<length s])" by simp
  then have "prod_list (map (\<lambda>p. s ! p) axes) = prod_list (map (\<lambda>p. s ! p) [0..<length s])"
    by (metis prod_mset_prod_list)
  then show ?thesis by (simp add: map_nth)
qed

lemma length_permuted:
  assumes "distinct axes" and "set axes = {0..<n}"
  shows "length axes = n"
  using assms by (metis distinct_card card_atLeastLessThan diff_zero)

lemma np_transpose_mset:
  fixes a :: "'a ndarray"
  assumes len: "length (data a) = prod_list (shape a)"
    and d: "distinct axes" and s: "set axes = {0..<length (shape a)}"
  shows "mset (data (np_transpose a axes)) = mset (data a)"
proof -
  define n where "n = length (shape a)"
  define s' where "s' = map (\<lambda>p. shape a ! p) axes"
  define N where "N = prod_list (shape a)"
  define perm where "perm = (\<lambda>idx' :: nat list. map (\<lambda>ax. idx' ! index_of axes ax) [0..<length axes])"
  define \<pi> where "\<pi> = (\<lambda>k. ravel (shape a) (perm (unravel s' k)))"
  have la: "length axes = n" using d s unfolding n_def by (rule length_permuted)
  have N': "prod_list s' = N" unfolding s'_def N_def using d s by (rule prod_list_permuted)
  have valid: "list_all2 (<) (perm idx') (shape a)" if "list_all2 (<) idx' s'" for idx'
  proof -
    have l: "length idx' = n" using that la by (simp add: s'_def list_all2_lengthD)
    have "perm idx' ! ax < shape a ! ax" if ax: "ax < n" for ax
    proof -
      have "ax \<in> set axes" using ax s by (simp add: n_def)
      then have j: "index_of axes ax < length axes" "axes ! index_of axes ax = ax"
        using index_of_nth by auto
      have "idx' ! index_of axes ax < s' ! index_of axes ax"
        using \<open>list_all2 (<) idx' s'\<close> j(1) la l by (simp add: list_all2_conv_all_nth)
      also have "s' ! index_of axes ax = shape a ! ax" using j by (simp add: s'_def)
      finally show ?thesis using ax la by (simp add: perm_def)
    qed
    then show ?thesis using la by (simp add: list_all2_conv_all_nth perm_def n_def)
  qed
  have inj: "idx1 = idx2"
    if "perm idx1 = perm idx2" "length idx1 = n" "length idx2 = n" for idx1 idx2 :: "nat list"
  proof (rule nth_equalityI)
    show "length idx1 = length idx2" using that by simp
    fix i assume "i < length idx1"
    then have i: "i < length axes" using that la by simp
    then have ax: "axes ! i < length axes" using s la by (metis atLeastLessThan_iff n_def nth_mem)
    have "perm idx1 ! (axes ! i) = perm idx2 ! (axes ! i)" using that(1) by simp
    then show "idx1 ! i = idx2 ! i"
      using ax i d by (simp add: perm_def index_of_distinct)
  qed
  have range: "\<pi> k < N" if "k < N" for k
    unfolding \<pi>_def N_def using that N' by (intro ravel_less valid unravel_valid) simp
  have "inj_on \<pi> {0..<N}"
  proof (rule inj_onI)
    fix k1 k2 assume k: "k1 \<in> {0..<N}" "k2 \<in> {0..<N}" and e: "\<pi> k1 = \<pi> k2"
    have v1: "list_all2 (<) (unravel s' k1) s'" and v2: "list_all2 (<) (unravel s' k2) s'"
      using k N' by (simp_all add: unravel_valid)
    have "unravel (shape a) (\<pi> k1) = unravel (shape a) (\<pi> k2)" using e by simp
    then have "perm (unravel s' k1) = perm (unravel s' k2)"
      unfolding \<pi>_def using valid [OF v1] valid [OF v2] by (simp add: unravel_ravel)
    moreover have "length (unravel s' k1) = n" "length (unravel s' k2) = n"
      using v1 v2 la by (simp_all add: list_all2_lengthD s'_def)
    ultimately have "unravel s' k1 = unravel s' k2" by (rule inj)
    then have "ravel s' (unravel s' k1) = ravel s' (unravel s' k2)" by simp
    then show "k1 = k2" using k N' by (simp add: ravel_unravel)
  qed
  moreover have "\<pi> ` {0..<N} \<subseteq> {0..<N}" using range by auto
  ultimately have img: "\<pi> ` {0..<N} = {0..<N}"
    by (metis card_image card_subset_eq finite_atLeastLessThan)
  have m: "image_mset \<pi> (mset [0..<N]) = mset [0..<N]"
  proof -
    have "image_mset \<pi> (mset_set {0..<N}) = mset_set (\<pi> ` {0..<N})"
      using \<open>inj_on \<pi> {0..<N}\<close> by (rule image_mset_mset_set)
    then show ?thesis by (simp add: img)
  qed
  have "data (np_transpose a axes) = map (\<lambda>k. data a ! k) (map \<pi> [0..<N])"
    by (simp add: np_transpose_def Let_def \<pi>_def perm_def s'_def [symmetric] N' comp_def)
  then have "mset (data (np_transpose a axes))
      = image_mset (\<lambda>k. data a ! k) (image_mset \<pi> (mset [0..<N]))"
    by (simp add: multiset.map_comp)
  also have "\<dots> = image_mset (\<lambda>k. data a ! k) (mset [0..<N])" by (simp only: m)
  also have "\<dots> = mset (map (\<lambda>k. data a ! k) [0..<N])" by (simp only: mset_map)
  also have "map (\<lambda>k. data a ! k) [0..<N] = data a"
    unfolding N_def len [symmetric] by (rule map_nth)
  finally show ?thesis .
qed

subsection \<open>Variance\<close>

lemma np_var_mset: "mset xs = mset ys \<Longrightarrow> np_var xs = np_var ys"
proof -
  assume m: "mset xs = mset ys"
  have l: "length xs = length ys" using m by (rule mset_eq_length)
  have s: "sum_list (map f xs) = sum_list (map f ys)" for f :: "real \<Rightarrow> real"
    using m by (metis mset_map sum_mset_sum_list)
  have "sum_list xs = sum_list ys" using m by (metis sum_mset_sum_list)
  then have mean: "np_mean xs = np_mean ys" by (simp add: np_mean_def l)
  have e: "xs = [] \<longleftrightarrow> ys = []" using l by auto
  show ?thesis unfolding np_var_def mean e l s ..
qed

lemma np_var_Fin:
  "xs \<noteq> [] \<Longrightarrow> \<exists>c. np_var xs = Fin c \<and> 0 \<le> c"
  by (auto simp: np_var_def intro!: divide_nonneg_nonneg sum_list_nonneg)

lemma np_var_scale:
  assumes "xs \<noteq> []" and "np_var xs = Fin c"
  shows "np_var (map (\<lambda>x. x * q) xs) = Fin (q\<^sup>2 * c)"
proof -
  have mean: "np_mean (map (\<lambda>x. x * q) xs) = np_mean xs * q"
    by (simp add: np_mean_def sum_list_mult_const)
  have "sum_list (map (\<lambda>x. (x * q - np_mean xs * q)\<^sup>2) xs)
      = sum_list (map (\<lambda>x. (x - np_mean xs)\<^sup>2 * q\<^sup>2) xs)"
    by (simp add: power_mult_distrib [symmetric] left_diff_distrib)
  also have "\<dots> = sum_list (map (\<lambda>x. (x - np_mean xs)\<^sup>2) xs) * q\<^sup>2"
    by (rule sum_list_mult_const)
  finally have "sum_list (map (\<lambda>x. (x * q - np_mean xs * q)\<^sup>2) xs)
      = sum_list (map (\<lambda>x. (x - np_mean xs)\<^sup>2) xs) * q\<^sup>2" .
  moreover have "c = sum_list (map (\<lambda>x. (x - np_mean xs)\<^sup>2) xs) / real (length xs)"
    using assms by (simp add: np_var_def)
  ultimately show ?thesis using assms(1) by (simp add: np_var_def mean comp_def)
qed

lemma scale_filters_finite:
  assumes ne: "data a \<noteq> []" and t: "0 < t"
    and fin: "\<forall>x\<in>set (data (scale_filters a (Fin t))). \<exists>r. x = Fin r"
  shows "\<exists>c. np_var (data a) = Fin c \<and> 0 < c \<and>
           data (scale_filters a (Fin t)) = map (\<lambda>x. Fin (x * sqrt (t / c))) (data a)"
proof -
  obtain c where c: "np_var (data a) = Fin c" "0 \<le> c" using np_var_Fin [OF ne] by blast
  obtain x xs where x: "data a = x # xs" using ne by (cases "data a") auto
  have "c \<noteq> 0"
  proof
    assume "c = 0"
    then have "data (scale_filters a (Fin t)) = map (\<lambda>x. fmul (Fin x) PInf) (data a)"
      using c(1) t by (simp add: scale_filters_def)
    then have "fmul (Fin x) PInf \<in> set (data (scale_filters a (Fin t)))" by (simp add: x)
    then obtain r where "fmul (Fin x) PInf = Fin r" using fin by blast
    then show False by (simp split: if_splits)
  qed
  then have pos: "0 < c" using c(2) by simp
  then have "0 \<le> t / c" using t by simp
  then have "data (scale_filters a (Fin t)) = map (\<lambda>x. Fin (x * sqrt (t / c))) (data a)"
    using c(1) pos by (simp add: scale_filters_def not_less [symmetric] del: not_less)
  then show ?thesis using c(1) pos by blast
qed

lemma call_Inr_spectral:
  assumes "length shp \<in> {3, 4, 5}" and "call E self shp g = (Inr out, g')"
  shows "\<exists>ks stack n axes g0.
           spectral E self ks stack n axes (fdiv (Fin 2) (Fin (fst (compute_fans E shp)))) g0
             = (Inr out, g') \<and>
           set (n # stack # ks) \<subseteq> set shp \<and> distinct axes \<and>
           set axes = {0..<length (n # stack # ks)}"
proof -
  from assms(2) obtain u g0 where
    r: "(let fan_in = fst (compute_fans E shp); variance = fdiv (Fin 2) (Fin fan_in)
         in if length shp = 3 then
              spectral E self [shp ! 0] (shp ! 1) (shp ! 2) [2, 1, 0] variance g0
            else if length shp = 4 then
              spectral E self [shp ! 0, shp ! 1] (shp ! 2) (shp ! 3) [2, 3, 0, 1] variance g0
            else if length shp = 5 then
              spectral E self [shp ! 0, shp ! 1, shp ! 2] (shp ! 3) (shp ! 4)
                [3, 4, 0, 1, 2] variance g0
            else and_then (orthogonal E shp g0) (\<lambda>q g1. (Inr (K_variable q), g1)))
        = (Inr out, g')"
    unfolding call_def Let_def and_then_eq_Inr by blast
  consider "length shp = 3" | "length shp = 4" | "length shp = 5" using assms(1) by auto
  then show ?thesis
  proof cases
    case 1
    then have s: "spectral E self [shp ! 0] (shp ! 1) (shp ! 2) [2, 1, 0]
        (fdiv (Fin 2) (Fin (fst (compute_fans E shp)))) g0 = (Inr out, g')"
      using r by (simp add: Let_def)
    have "set [shp ! 2, shp ! 1, shp ! 0] \<subseteq> set shp" using 1 by simp
    moreover have "set [2, 1, 0 :: nat] = {0..<length [shp ! 2, shp ! 1, shp ! 0]}" by auto
    ultimately show ?thesis
      using s
      by (intro exI [of _ "[shp ! 0]"] exI [of _ "shp ! 1"] exI [of _ "shp ! 2"]
          exI [of _ "[2, 1, 0]"] exI [of _ g0])
        (simp del: fdiv.simps)
  next
    case 2
    then have s: "spectral E self [shp ! 0, shp ! 1] (shp ! 2) (shp ! 3) [2, 3, 0, 1]
        (fdiv (Fin 2) (Fin (fst (compute_fans E shp)))) g0 = (Inr out, g')"
      using r by (simp add: Let_def)
    have "set [shp ! 3, shp ! 2, shp ! 0, shp ! 1] \<subseteq> set shp" using 2 by simp
    moreover have "set [2, 3, 0, 1 :: nat] = {0..<length [shp ! 3, shp ! 2, shp ! 0, shp ! 1]}"
      by auto
    ultimately show ?thesis
      using s
      by (intro exI [of _ "[shp ! 0, shp ! 1]"] exI [of _ "shp ! 2"] exI [of _ "shp ! 3"]
          exI [of _ "[2, 3, 0, 1]"] exI [of _ g0])
        (simp del: fdiv.simps)
  next
    case 3
    then have s: "spectral E self [shp ! 0, shp ! 1, shp ! 2] (shp ! 3) (shp ! 4) [3, 4, 0, 1, 2]
        (fdiv (Fin 2) (Fin (fst (compute_fans E shp)))) g0 = (Inr out, g')"
      using r by (simp add: Let_def)
    have "set [shp ! 4, shp ! 3, shp ! 0, shp ! 1, shp ! 2] \<subseteq> set shp" using 3 by simp
    moreover have "set [3, 4, 0, 1, 2 :: nat]
        = {0..<length [shp ! 4, shp ! 3, shp ! 0, shp ! 1, shp ! 2]}"
      by auto
    ultimately show ?thesis
      using s
      by (intro exI [of _ "[shp ! 0, shp ! 1, shp ! 2]"] exI [of _ "shp ! 3"]
          exI [of _ "shp ! 4"] exI [of _ "[3, 4, 0, 1, 2]"] exI [of _ g0])
        (simp del: fdiv.simps)
  qed
qed

text \<open>
  Claim C2, as the code has it. For every shape of rank 3, 4 or 5 with positive entries
  and a positive \<open>fan_in\<close>, whenever the call returns a bank that holds finite numbers
  only, the empirical variance of the returned bank is exactly \<open>2 / fan_in\<close> in real
  arithmetic, \<open>fan_in\<close> being what the fan computation returns for the shape. The bank is
  finite exactly when the bank assembled before rescaling has a non-zero empirical
  variance; more than one input channel does not ensure that.
\<close>

theorem call_variance:
  assumes rank: "length shp \<in> {3, 4, 5}" and pos: "\<forall>n\<in>set shp. 0 < n"
    and call: "call E self shp g = (Inr out, g')"
    and fan: "0 < fst (compute_fans E shp)"
    and fin: "\<forall>x\<in>set (data out). \<exists>r. x = Fin r"
  shows "\<exists>xs. data out = map Fin xs \<and> np_var xs = Fin (2 / fst (compute_fans E shp))"
proof -
  define t where "t = 2 / fst (compute_fans E shp)"
  have t: "0 < t" using fan by (simp add: t_def)
  have v: "fdiv (Fin 2) (Fin (fst (compute_fans E shp))) = Fin t" using fan by (simp add: t_def)
  obtain ks stack n axes g0 where
    s: "spectral E self ks stack n axes (Fin t) g0 = (Inr out, g')"
    and sub: "set (n # stack # ks) \<subseteq> set shp"
    and axes: "distinct axes" "set axes = {0..<length (n # stack # ks)}"
    using call_Inr_spectral [OF rank call] unfolding v by blast
  from s obtain bank where
    b: "filter_bank E self ks stack n g0 = (Inr bank, g')"
    and o: "out = np_transpose (scale_filters bank (Fin t)) axes"
    by (auto simp: spectral_def and_then_eq_Inr)
  have p: "0 < n" "0 < stack" "\<forall>k\<in>set ks. 0 < k" using sub pos by auto
  have pk: "0 < prod_list ks" using p(3) by (induction ks) simp_all
  note wf = filter_bank_Inr [OF b p(2) p(1)]
  have len: "length (data bank) = prod_list (shape bank)" using wf by simp
  have ne: "data bank \<noteq> []" using wf p pk by auto
  let ?sc = "scale_filters bank (Fin t)"
  have "length (data ?sc) = prod_list (shape ?sc)"
    using len by (simp add: scale_filters_def Let_def)
  moreover have "set axes = {0..<length (shape ?sc)}"
    using axes(2) wf by (simp add: scale_filters_def Let_def)
  ultimately have m: "mset (data out) = mset (data ?sc)"
    unfolding o using axes(1) by (intro np_transpose_mset)
  have "set (data out) = set (data ?sc)" using m by (rule mset_eq_setD)
  then have "\<forall>x\<in>set (data ?sc). \<exists>r. x = Fin r" using fin by simp
  then obtain c where c: "np_var (data bank) = Fin c" "0 < c"
    and sc: "data ?sc = map (\<lambda>x. Fin (x * sqrt (t / c))) (data bank)"
    using scale_filters_finite [OF ne t] by blast
  define val where "val = (\<lambda>x. case x of Fin r \<Rightarrow> r | _ \<Rightarrow> 0)"
  define xs where "xs = map val (data out)"
  have "map Fin xs = data out"
    unfolding xs_def map_map using fin by (intro map_idI) (auto simp: val_def)
  moreover have "np_var xs = Fin t"
  proof -
    have "mset xs = image_mset val (mset (data ?sc))" by (simp add: xs_def m)
    also have "\<dots> = mset (map (\<lambda>x. x * sqrt (t / c)) (data bank))"
      by (simp add: sc val_def multiset.map_comp comp_def)
    finally have "np_var xs = np_var (map (\<lambda>x. x * sqrt (t / c)) (data bank))"
      by (rule np_var_mset)
    also have "\<dots> = Fin ((sqrt (t / c))\<^sup>2 * c)" using ne c(1) by (rule np_var_scale)
    also have "(sqrt (t / c))\<^sup>2 * c = t" using t c(2) by simp
    finally show ?thesis .
  qed
  ultimately show ?thesis unfolding t_def by metis
qed

subsection \<open>Running the concrete collaborators\<close>

lemma E0_sel:
  "np_random_seed E0 = (\<lambda>s. nat s)" "irfftn E0 = irfftn_small"
  "compute_fans E0 = keras_compute_fans"
  "svd_q E0 = (\<lambda>a k. if k div (shape a ! 1) = k mod (shape a ! 1) then 1 else 0)"
  "svd_u E0 = (\<lambda>a i j. if i = j then 1 else 0)" "gauss E0 = (\<lambda>g. (real g, Suc g))"
  by (simp_all add: E0_def)

lemmas bank_eval = create_basis_def ConvolutionAware_def np_random_normal_ok draws_E0
  and_then_Inr reshape_def iter0_def np_fft_irfftn_def E0_sel irfftn_small_def np_add_def
  np_array_nested_def

lemma bank_1x1_eps1:
  "filter_bank E0 (ConvolutionAware 1 (Some 0)) [1, 1] 2 1 0
     = (Inr \<lparr>shape = [1, 2, 1, 1], data = [2, 4]\<rparr>, 4)"
  by (simp add: filter_bank_def rfft_shape_def bank_eval Let_def upt_rec)

lemma bank_1x1_eps0:
  "filter_bank E0 (ConvolutionAware 0 (Some 0)) [1, 1] 2 2 0
     = (Inr \<lparr>shape = [2, 2, 1, 1], data = [0, 0, 0, 0]\<rparr>, 8)"
proof -
  have "filter_bank E0 (ConvolutionAware 0 (Some 0)) [1, 1] 2 (Suc (Suc 0)) 0
     = (Inr \<lparr>shape = [2, 2, 1, 1], data = [0, 0, 0, 0]\<rparr>, 8)"
    by (simp add: filter_bank_def rfft_shape_def bank_eval Let_def upt_rec)
  then show ?thesis by (simp only: numeral_2_eq_2)
qed

lemma bank_1x1_single:
  "filter_bank E0 (ConvolutionAware 0 (Some 0)) [1, 1] 1 1 0
     = (Inr \<lparr>shape = [1, 1, 1, 1], data = [0]\<rparr>, 2)"
  by (simp add: filter_bank_def rfft_shape_def bank_eval Let_def)

subsection \<open>Unchecked configuration and degenerate variance\<close>

lemma call_spectral_any:
  assumes "valid_seed self" and "length shp \<in> {3, 4, 5}"
  shows "\<exists>ks stack n axes.
           call E self shp g
             = spectral E self ks stack n axes (fdiv (Fin 2) (Fin (fst (compute_fans E shp))))
                 (case seed self of None \<Rightarrow> g | Some s \<Rightarrow> np_random_seed E s) \<and>
           stack \<in> set shp \<and> n \<in> set shp"
proof -
  let ?g = "case seed self of None \<Rightarrow> g | Some s \<Rightarrow> np_random_seed E s"
  let ?v = "fdiv (Fin 2) (Fin (fst (compute_fans E shp)))"
  consider "length shp = 3" | "length shp = 4" | "length shp = 5" using assms(2) by auto
  then show ?thesis
  proof cases
    case 1
    then have "call E self shp g = spectral E self [shp ! 0] (shp ! 1) (shp ! 2) [2, 1, 0] ?v ?g"
      by (simp add: call_def seed_step [OF assms(1)] and_then_Inr Let_def del: fdiv.simps)
    moreover have "shp ! 1 \<in> set shp" "shp ! 2 \<in> set shp" using 1 by simp_all
    ultimately show ?thesis by blast
  next
    case 2
    then have "call E self shp g
        = spectral E self [shp ! 0, shp ! 1] (shp ! 2) (shp ! 3) [2, 3, 0, 1] ?v ?g"
      by (simp add: call_def seed_step [OF assms(1)] and_then_Inr Let_def del: fdiv.simps)
    moreover have "shp ! 2 \<in> set shp" "shp ! 3 \<in> set shp" using 2 by simp_all
    ultimately show ?thesis by blast
  next
    case 3
    then have "call E self shp g
        = spectral E self [shp ! 0, shp ! 1, shp ! 2] (shp ! 3) (shp ! 4) [3, 4, 0, 1, 2] ?v ?g"
      by (simp add: call_def seed_step [OF assms(1)] and_then_Inr Let_def del: fdiv.simps)
    moreover have "shp ! 3 \<in> set shp" "shp ! 4 \<in> set shp" using 3 by simp_all
    ultimately show ?thesis by blast
  qed
qed

lemma call_total:
  assumes "0 \<le> eps_std self" and "valid_seed self" and "length shp \<in> {3, 4, 5}"
  shows "\<exists>out g'. call E self shp g = (Inr out, g')"
proof -
  obtain ks stack n axes where "call E self shp g
      = spectral E self ks stack n axes (fdiv (Fin 2) (Fin (fst (compute_fans E shp))))
          (case seed self of None \<Rightarrow> g | Some s \<Rightarrow> np_random_seed E s)"
    using call_spectral_any [OF assms(2,3), of E g] by blast
  then show ?thesis using spectral_total [OF assms(1)] by metis
qed

lemma create_basis_blocks_Inr:
  "sz \<noteq> 1 \<Longrightarrow> \<exists>p g'. create_basis E self filters sz g = (Inr p, g')"
proof -
  assume sz: "sz \<noteq> 1"
  obtain li where "basis_blocks E sz (filters div sz + 1) g
      = (Inr li, snd (draws E ((filters div sz + 1) * (sz * sz)) g))"
    using basis_blocks_ok [of E sz "filters div sz + 1" g] by blast
  then have "create_basis E self filters sz g
      = (Inr (np_array2 (take filters li)), snd (draws E ((filters div sz + 1) * (sz * sz)) g))"
    unfolding create_basis_def Let_def using sz by (simp only: and_then_Inr if_False)
  then show ?thesis by blast
qed

lemma make_filters_negative:
  "eps_std self < 0 \<Longrightarrow> xs \<noteq> [] \<Longrightarrow> make_filters E self ks xs g = (Inl ValueError, g)"
  by (cases xs) (simp_all add: np_random_normal_neg and_then_Inl)

lemma init_loop_negative:
  assumes "eps_std self < 0" and "0 < stack"
  shows "\<exists>g'. init_loop E self ks kfs stack (Suc n) g = (Inl ValueError, g')"
proof (cases "prod_list kfs = 1")
  case True
  have "create_basis E self stack (prod_list kfs) g = (Inl ValueError, g)"
    using True assms(1) by (simp add: create_basis_def np_random_normal_neg)
  then show ?thesis by (simp add: and_then_Inl)
next
  case False
  obtain p g1 where p: "create_basis E self stack (prod_list kfs) g = (Inr p, g1)"
    using create_basis_blocks_Inr [OF False, of E self stack g] by blast
  have "length (iter0 (reshape p (stack # kfs))) = stack" by (rule iter0_length)
  then have "iter0 (reshape p (stack # kfs)) \<noteq> []" using assms(2) by auto
  then have "make_filters E self ks (iter0 (reshape p (stack # kfs))) g1 = (Inl ValueError, g1)"
    using assms(1) by (intro make_filters_negative)
  then show ?thesis by (simp add: p and_then_Inr and_then_Inl Let_def)
qed

lemma spectral_negative:
  assumes "eps_std self < 0" and "0 < stack" and "0 < n"
  shows "\<exists>g'. spectral E self ks stack n axes v g = (Inl ValueError, g')"
proof -
  obtain m where n: "n = Suc m" using assms(3) by (cases n) auto
  obtain g' where "init_loop E self ks (rfft_shape ks) stack (Suc m) g = (Inl ValueError, g')"
    using init_loop_negative [OF assms(1,2), of E ks "rfft_shape ks" m g] by blast
  then show ?thesis by (simp add: spectral_def filter_bank_def n and_then_Inl Let_def)
qed

lemma call_negative:
  assumes "eps_std self < 0" and "valid_seed self" and "length shp \<in> {3, 4, 5}"
    and "\<forall>n\<in>set shp. 0 < n"
  shows "\<exists>g'. call E self shp g = (Inl ValueError, g')"
proof -
  obtain ks stack n axes where
    c: "call E self shp g
      = spectral E self ks stack n axes (fdiv (Fin 2) (Fin (fst (compute_fans E shp))))
          (case seed self of None \<Rightarrow> g | Some s \<Rightarrow> np_random_seed E s)"
    and "stack \<in> set shp" "n \<in> set shp"
    using call_spectral_any [OF assms(2,3), of E g] by blast
  then have "0 < stack" "0 < n" using assms(4) by auto
  then show ?thesis unfolding c using assms(1) by (intro spectral_negative)
qed

text \<open>
  Claim C9, as the code has it. The constructor stores \<open>eps_std\<close> and the seed unchanged
  and checks neither. On a shape of rank 3, 4 or 5 with positive entries, a call with
  \<open>eps_std \<ge> 0\<close>, zero included, proceeds and returns an array; a call with a negative
  \<open>eps_std\<close> ends in the \<^verbatim>\<open>ValueError\<close> numpy raises at the first draw whose scale is
  \<open>eps_std\<close>.
\<close>

theorem eps_std_unchecked:
  assumes "valid_seed (ConvolutionAware e s)" and "length shp \<in> {3, 4, 5}"
    and "\<forall>n\<in>set shp. 0 < n"
  shows "eps_std (ConvolutionAware e s) = e \<and> seed (ConvolutionAware e s) = s \<and>
         (if 0 \<le> e then \<exists>out g'. call E (ConvolutionAware e s) shp g = (Inr out, g')
          else \<exists>g'. call E (ConvolutionAware e s) shp g = (Inl ValueError, g'))"
proof (cases "0 \<le> e")
  case True
  then have "0 \<le> eps_std (ConvolutionAware e s)" by (simp add: ConvolutionAware_def)
  then have "\<exists>out g'. call E (ConvolutionAware e s) shp g = (Inr out, g')"
    using assms(1,2) by (rule call_total)
  then show ?thesis using True by (simp add: ConvolutionAware_def)
next
  case False
  then have "eps_std (ConvolutionAware e s) < 0" by (simp add: ConvolutionAware_def)
  then have "\<exists>g'. call E (ConvolutionAware e s) shp g = (Inl ValueError, g')"
    using assms by (rule call_negative)
  then show ?thesis using False by (simp add: ConvolutionAware_def)
qed

theorem eps_std_unchecked_witness:
  "eps_std (ConvolutionAware (- 1) None) = - 1 \<and>
   (\<exists>g'. call E0 (ConvolutionAware (- 1) None) [3, 3, 4, 8] 0 = (Inl ValueError, g')) \<and>
   (\<exists>out g'. call E0 (ConvolutionAware 0 (Some 42)) [3, 4, 8] 0 = (Inr out, g'))"
  using eps_std_unchecked [of "- 1" None "[3, 3, 4, 8]" E0 0]
    eps_std_unchecked [of 0 "Some 42" "[3, 4, 8]" E0 0]
  by (simp add: valid_seed_def ConvolutionAware_def)

text \<open>
  Claim C9 as stated fails: an initializer with \<open>eps_std = 0\<close> is constructed and its
  call returns an array.
\<close>

theorem eps_std_zero_proceeds:
  "eps_std (ConvolutionAware 0 None) = 0 \<and>
   (\<exists>out g'. call E0 (ConvolutionAware 0 None) [3, 3, 4, 8] 0 = (Inr out, g'))"
proof -
  have "\<exists>out g'. call E0 (ConvolutionAware 0 None) [3, 3, 4, 8] 0 = (Inr out, g')"
    by (rule call_total) (simp_all add: valid_seed_def ConvolutionAware_def)
  then show ?thesis by (simp add: ConvolutionAware_def)
qed

text \<open>
  Claim C8, as the code has it. For a bank whose empirical variance is zero and a positive
  target variance, \<open>scale_filters\<close> signals nothing: the factor is the square root of an
  infinity, and the result has the bank's shape with NaN in place of every zero element
  and a signed infinity in place of every other.
\<close>

theorem scale_filters_zero_variance:
  assumes "np_var (data filters) = Fin 0" and "0 < v"
  shows "scale_filters filters (Fin v)
           = \<lparr>shape = shape filters,
              data = map (\<lambda>x. if x = 0 then NaN else if 0 < x then PInf else NInf)
                       (data filters)\<rparr>"
  using assms by (simp add: scale_filters_def)

theorem scale_filters_zero_variance_witness:
  "scale_filters \<lparr>shape = [1, 2, 1, 1], data = [3, 3]\<rparr> (Fin 1)
     = \<lparr>shape = [1, 2, 1, 1], data = [PInf, PInf]\<rparr>"
  using scale_filters_zero_variance [of "\<lparr>shape = [1, 2, 1, 1], data = [3, 3]\<rparr>" 1]
  by (simp add: np_var_def np_mean_def)

lemma scale_eps1:
  "scale_filters \<lparr>shape = [1, 2, 1, 1], data = [2, 4]\<rparr> (Fin 1)
     = \<lparr>shape = [1, 2, 1, 1], data = [Fin 2, Fin 4]\<rparr>"
  by (simp add: scale_filters_def np_var_def np_mean_def)

lemma transpose_eps1:
  "np_transpose \<lparr>shape = [1, 2, 1, 1], data = [Fin 2, Fin 4]\<rparr> [2, 3, 0, 1]
     = \<lparr>shape = [1, 1, 1, 2], data = [Fin 2, Fin 4]\<rparr>"
  by (simp add: np_transpose_def upt_rec)

lemma call_eps1:
  "call E0 (ConvolutionAware 1 (Some 0)) [1, 1, 2, 1] 0
     = (Inr \<lparr>shape = [1, 1, 1, 2], data = [Fin 2, Fin 4]\<rparr>, 4)"
proof -
  have v: "valid_seed (ConvolutionAware 1 (Some 0))"
    by (simp add: valid_seed_def ConvolutionAware_def)
  have f: "fdiv (Fin 2) (Fin (fst (compute_fans E0 [1, 1, 2, 1]))) = Fin 1"
    by (simp add: E0_sel keras_compute_fans_def)
  have g: "(case seed (ConvolutionAware 1 (Some 0)) of None \<Rightarrow> 0 | Some s \<Rightarrow> np_random_seed E0 s) = 0"
    by (simp add: E0_sel ConvolutionAware_def)
  show ?thesis
    unfolding call_spectral4 [OF v] f g spectral_def bank_1x1_eps1 and_then_Inr scale_eps1
      transpose_eps1 ..
qed

theorem call_variance_witness:
  "call E0 (ConvolutionAware 1 (Some 0)) [1, 1, 2, 1] 0
     = (Inr \<lparr>shape = [1, 1, 1, 2], data = [Fin 2, Fin 4]\<rparr>, 4) \<and>
   (\<exists>xs. [Fin 2, Fin 4] = map Fin xs \<and> np_var xs = Fin 1)"
proof -
  have "\<exists>xs. data \<lparr>shape = [1, 1, 1, 2], data = [Fin 2, Fin 4]\<rparr> = map Fin xs \<and>
      np_var xs = Fin (2 / fst (compute_fans E0 [1, 1, 2, 1]))"
    by (rule call_variance [OF _ _ call_eps1]) (simp_all add: E0_sel keras_compute_fans_def)
  then show ?thesis using call_eps1 by (simp add: E0_sel keras_compute_fans_def)
qed

lemma scale_eps0:
  "scale_filters \<lparr>shape = [2, 2, 1, 1], data = [0, 0, 0, 0]\<rparr> (Fin 1)
     = \<lparr>shape = [2, 2, 1, 1], data = [NaN, NaN, NaN, NaN]\<rparr>"
  by (simp add: scale_filters_def np_var_def np_mean_def)

lemma transpose_eps0:
  "np_transpose \<lparr>shape = [2, 2, 1, 1], data = [NaN, NaN, NaN, NaN]\<rparr> [2, 3, 0, 1]
     = \<lparr>shape = [1, 1, 2, 2], data = [NaN, NaN, NaN, NaN]\<rparr>"
  by (simp add: np_transpose_def upt_rec)

text \<open>
  Claim C2 as stated fails: with two input channels, a 1 by 1 kernel and \<open>eps_std = 0\<close>
  every draw is scaled to zero, the assembled bank has variance zero, and the returned bank
  is NaN throughout, so it has no variance equal to \<open>2 / fan_in\<close>.
\<close>

theorem zero_noise_variance_undefined:
  "call E0 (ConvolutionAware 0 (Some 0)) [1, 1, 2, 2] 0
     = (Inr \<lparr>shape = [1, 1, 2, 2], data = [NaN, NaN, NaN, NaN]\<rparr>, 8) \<and>
   \<not> (\<exists>xs. [NaN, NaN, NaN, NaN] = map Fin xs \<and>
          np_var xs = Fin (2 / fst (compute_fans E0 [1, 1, 2, 2])))"
proof -
  have v: "valid_seed (ConvolutionAware 0 (Some 0))"
    by (simp add: valid_seed_def ConvolutionAware_def)
  have f: "fdiv (Fin 2) (Fin (fst (compute_fans E0 [1, 1, 2, 2]))) = Fin 1"
    by (simp add: E0_sel keras_compute_fans_def)
  have g: "(case seed (ConvolutionAware 0 (Some 0)) of None \<Rightarrow> 0 | Some s \<Rightarrow> np_random_seed E0 s) = 0"
    by (simp add: E0_sel ConvolutionAware_def)
  have "call E0 (ConvolutionAware 0 (Some 0)) [1, 1, 2, 2] 0
     = (Inr \<lparr>shape = [1, 1, 2, 2], data = [NaN, NaN, NaN, NaN]\<rparr>, 8)"
    unfolding call_spectral4 [OF v] f g spectral_def bank_1x1_eps0 and_then_Inr scale_eps0
      transpose_eps0 ..
  moreover have "[NaN, NaN, NaN, NaN] \<noteq> map Fin xs" for xs
    by (cases xs) auto
  ultimately show ?thesis by simp
qed

lemma scale_single:
  "scale_filters \<lparr>shape = [1, 1, 1, 1], data = [0]\<rparr> (Fin 2)
     = \<lparr>shape = [1, 1, 1, 1], data = [NaN]\<rparr>"
  by (simp add: scale_filters_def np_var_def np_mean_def)

lemma transpose_single:
  "np_transpose \<lparr>shape = [1, 1, 1, 1], data = [NaN]\<rparr> [2, 3, 0, 1]
     = \<lparr>shape = [1, 1, 1, 1], data = [NaN]\<rparr>"
  by (simp add: np_transpose_def)

text \<open>
  Claim C8 as stated fails: with one input channel, a 1 by 1 kernel and \<open>eps_std = 0\<close> the
  bank is the single element 0, and both the rescaling and the whole call return a NaN
  array and no error.
\<close>

theorem zero_variance_no_error:
  "scale_filters \<lparr>shape = [1, 1, 1, 1], data = [0]\<rparr> (Fin 2)
     = \<lparr>shape = [1, 1, 1, 1], data = [NaN]\<rparr> \<and>
   call E0 (ConvolutionAware 0 (Some 0)) [1, 1, 1, 1] 0
     = (Inr \<lparr>shape = [1, 1, 1, 1], data = [NaN]\<rparr>, 2)"
proof -
  have v: "valid_seed (ConvolutionAware 0 (Some 0))"
    by (simp add: valid_seed_def ConvolutionAware_def)
  have f: "fdiv (Fin 2) (Fin (fst (compute_fans E0 [1, 1, 1, 1]))) = Fin 2"
    by (simp add: E0_sel keras_compute_fans_def)
  have g: "(case seed (ConvolutionAware 0 (Some 0)) of None \<Rightarrow> 0 | Some s \<Rightarrow> np_random_seed E0 s) = 0"
    by (simp add: E0_sel ConvolutionAware_def)
  have "call E0 (ConvolutionAware 0 (Some 0)) [1, 1, 1, 1] 0
     = (Inr \<lparr>shape = [1, 1, 1, 1], data = [NaN]\<rparr>, 2)"
    unfolding call_spectral4 [OF v] f g spectral_def bank_1x1_single and_then_Inr scale_single
      transpose_single ..
  then show ?thesis using scale_single by simp
qed

theorem call_rank3_shape_witness:
  "\<exists>out g'. call E0 (ConvolutionAware (5 / 100) (Some 42)) [3, 4, 8] 0 = (Inr out, g') \<and>
     shape out = [3, 4, 8]"
  by (rule call_rank3_shape) (simp_all add: ConvolutionAware_def valid_seed_def)

theorem call_rank5_shape_witness:
  "\<exists>out g'. call E0 (ConvolutionAware (5 / 100) (Some 42)) [2, 3, 5, 4, 8] 0 = (Inr out, g') \<and>
     shape out = [3, 5, 8, 4, 2]"
  by (rule call_rank5_shape) (simp_all add: ConvolutionAware_def valid_seed_def)

end
